theory Spec2Isabelle
  imports Complex_Main "HOL-Library.AList" "HOL-Library.Sublist"
begin

section \<open>The user router of node\_assignment\<close>

text \<open>
  The repository is one HTTP router, \<^verbatim>\<open>userRouter(req, res, db)\<close>, in front of a
  MongoDB collection \<^verbatim>\<open>users\<close>, with a process-wide cache
  (\<^verbatim>\<open>setCache\<close>, \<^verbatim>\<open>getCache\<close>, \<^verbatim>\<open>invalidateCacheByPrefix\<close>).
  The development embeds the router as functions from the request, the
  environment it reads (the clock, the remote feed), the cache and the store to
  the response written and the cache and store left behind.  One request is run
  to its end before the next one starts; interleavings of requests are not
  part of the model.
\<close>

subsection \<open>The string and number functions of the runtime that the router calls\<close>

text \<open>
  A string is a list of UTF-16 code units, and a character \<open>CHR n\<close> is the code
  unit \<open>n\<close>: the model covers the strings whose code units are below 256 (ASCII
  and the Latin-1 supplement; the router's own literals are all ASCII), and a
  string with another code unit cannot be written in it.

  A number is a double.  Every number the router computes with is an integer
  (the result of \<^verbatim>\<open>parseInt\<close>, a count, a difference or a product of such), so
  numbers are integers here, and where the runtime rounds, the model rounds:
  \<open>to_double\<close> is the double nearest to an integer, ties to the even
  significand.  Doubles end near \<open>2^1024\<close>; beyond, the runtime has
  \<^verbatim>\<open>Infinity\<close>, which the model has not: integers of that size (they take
  309 decimal digits at least) are outside the model.  \<^verbatim>\<open>NaN\<close> is \<open>None\<close>.
\<close>

text \<open>The number of binary digits of a natural number.\<close>

fun bit_length :: "nat \<Rightarrow> nat" where
  "bit_length n = (if n = 0 then 0 else Suc (bit_length (n div 2)))"

text \<open>
  The integer \<open>i\<close> as a double: below \<open>2^53\<close> it is \<open>i\<close>; from there on the 53
  leading binary digits are kept, the rest is rounded to the nearest, and
  half-way to the even neighbour.
\<close>

definition to_double :: "int \<Rightarrow> int" where
  "to_double i =
     (let a = nat \<bar>i\<bar>;
          e = bit_length a - 53;
          q = a div 2 ^ e;
          r = a mod 2 ^ e;
          up = (2 ^ e < 2 * r \<or> (2 * r = 2 ^ e \<and> odd q))
      in sgn i * int ((if up then q + 1 else q) * 2 ^ e))"

definition startsWith :: "string \<Rightarrow> string \<Rightarrow> bool" where
  "startsWith s p = (take (length p) s = p)"

text \<open>\<^verbatim>\<open>s.split(sep)\<close> for a separator of one character.\<close>

fun split_on :: "char \<Rightarrow> string \<Rightarrow> string list" where
  "split_on sep [] = [[]]"
| "split_on sep (c # cs) =
     (if c = sep then [] # split_on sep cs
      else (case split_on sep cs of
              [] \<Rightarrow> [[c]]
            | seg # segs \<Rightarrow> (c # seg) # segs))"

text \<open>\<^verbatim>\<open>xs[i]\<close>: \<^verbatim>\<open>undefined\<close> (here \<open>None\<close>) out of range.\<close>

definition nth_opt :: "'a list \<Rightarrow> nat \<Rightarrow> 'a option" where
  "nth_opt xs i = (if i < length xs then Some (xs ! i) else None)"

text \<open>
  The white space and line terminators \<^verbatim>\<open>parseInt\<close> skips, among the code units
  below 256: tab, line feed, vertical tab, form feed, carriage return, space
  and the no-break space U+00A0.
\<close>

definition is_space :: "char \<Rightarrow> bool" where
  "is_space c = (c = CHR 0x09 \<or> c = CHR 0x0A \<or> c = CHR 0x0B \<or> c = CHR 0x0C
                 \<or> c = CHR 0x0D \<or> c = CHR 0x20 \<or> c = CHR 0xA0)"

text \<open>The class \<^verbatim>\<open>\d\<close> of a regular expression.\<close>

definition is_digit :: "char \<Rightarrow> bool" where
  "is_digit c = (48 \<le> (of_char c :: nat) \<and> (of_char c :: nat) \<le> 57)"

text \<open>The value of a character as a digit: \<open>0-9\<close>, then \<open>a-z\<close> or \<open>A-Z\<close> for 10 to 35.\<close>

definition digit_of :: "char \<Rightarrow> nat option" where
  "digit_of c =
     (let n = (of_char c :: nat) in
      if 48 \<le> n \<and> n \<le> 57 then Some (n - 48)
      else if 97 \<le> n \<and> n \<le> 122 then Some (n - 87)
      else if 65 \<le> n \<and> n \<le> 90 then Some (n - 55)
      else None)"

definition radix_digit :: "nat \<Rightarrow> char \<Rightarrow> bool" where
  "radix_digit r c = (case digit_of c of None \<Rightarrow> False | Some d \<Rightarrow> d < r)"

definition digits_value :: "nat \<Rightarrow> string \<Rightarrow> nat" where
  "digits_value r ds =
     foldl (\<lambda>acc c. case digit_of c of None \<Rightarrow> acc | Some d \<Rightarrow> acc * r + d) 0 ds"

text \<open>
  \<^verbatim>\<open>parseInt(str, radix)\<close>; radix \<open>0\<close> stands for a call without a radix.
  Leading white space is skipped, a sign is read, a \<^verbatim>\<open>0x\<close> prefix switches to
  base 16 when the radix is absent or 16, and the longest run of digits of the
  base is the value, as a double.  Whatever follows the digits is ignored; no
  digit at all gives \<^verbatim>\<open>NaN\<close>.  The double is the one nearest to the exact
  value of the digits (the standard lets an implementation round more
  coarsely once there are more than 20 digits).
\<close>

definition parseInt :: "string \<Rightarrow> nat \<Rightarrow> int option" where
  "parseInt str radix =
     (let s = dropWhile is_space str;
          neg = (case s of [] \<Rightarrow> False | c # _ \<Rightarrow> c = CHR ''-'');
          s1 = (case s of [] \<Rightarrow> [] | c # cs \<Rightarrow> if c = CHR ''-'' \<or> c = CHR ''+'' then cs else s);
          hex = ((radix = 0 \<or> radix = 16) \<and> (take 2 s1 = ''0x'' \<or> take 2 s1 = ''0X''));
          r = (if hex then 16 else if radix = 0 then 10 else radix);
          s2 = (if hex then drop 2 s1 else s1);
          ds = takeWhile (radix_digit r) s2
      in if radix \<noteq> 0 \<and> (radix < 2 \<or> 36 < radix) then None
         else if ds = [] then None
         else Some (to_double ((if neg then - 1 else 1) * int (digits_value r ds))))"

text \<open>
  \<^verbatim>\<open>s.toLowerCase()\<close> on the code units below 256: the letters \<open>A-Z\<close> and the
  capital letters U+00C0 to U+00DE of Latin-1 (all of that range but the
  multiplication sign U+00D7) move up by 32; every other one stays.
\<close>

definition lower_char :: "char \<Rightarrow> char" where
  "lower_char c =
     (let n = (of_char c :: nat) in
      if 65 \<le> n \<and> n \<le> 90 then char_of (n + 32)
      else if 192 \<le> n \<and> n \<le> 222 \<and> n \<noteq> 215 then char_of (n + 32)
      else c)"

definition toLowerCase :: "string \<Rightarrow> string" where
  "toLowerCase s = map lower_char s"

text \<open>\<^verbatim>\<open>xs.join(sep)\<close>.\<close>

fun join :: "string \<Rightarrow> string list \<Rightarrow> string" where
  "join sep [] = []"
| "join sep [x] = x"
| "join sep (x # y # ys) = x @ sep @ join sep (y # ys)"

text \<open>
  A number as a string: its decimal digits, with a minus sign when it is
  negative.  That is what a template literal and \<^verbatim>\<open>JSON.stringify\<close> print for
  the integers of magnitude up to \<open>2^53\<close>.  (For a larger double the runtime
  prints the shortest digits that identify it, filled with zeros, and from
  \<open>10^21\<close> on an exponent; these differ from the digits here, and they too are
  different for different doubles.)
\<close>

definition digit_char :: "nat \<Rightarrow> char" where
  "digit_char d = char_of (48 + d)"

fun decimal :: "nat \<Rightarrow> string" where
  "decimal n = (if n < 10 then [digit_char n] else decimal (n div 10) @ [digit_char (n mod 10)])"

definition number_string :: "int \<Rightarrow> string" where
  "number_string i = (if i < 0 then CHR ''-'' # decimal (nat (- i)) else decimal (nat i))"

definition nan_string :: "int option \<Rightarrow> string" where
  "nan_string x = (case x of None \<Rightarrow> ''NaN'' | Some i \<Rightarrow> number_string i)"

text \<open>
  \<^verbatim>\<open>JSON.stringify\<close> of a string: the quote and the backslash are escaped, the
  control characters have their short escapes or \<^verbatim>\<open>\u00XX\<close>, every other
  character stands for itself.
\<close>

definition hex_char :: "nat \<Rightarrow> char" where
  "hex_char d = (if d < 10 then char_of (48 + d) else char_of (87 + d))"

definition json_escape :: "char \<Rightarrow> string" where
  "json_escape c =
     (if c = CHR 0x22 then [CHR 0x5C, CHR 0x22]
      else if c = CHR 0x5C then [CHR 0x5C, CHR 0x5C]
      else if c = CHR 0x08 then [CHR 0x5C, CHR ''b'']
      else if c = CHR 0x09 then [CHR 0x5C, CHR ''t'']
      else if c = CHR 0x0A then [CHR 0x5C, CHR ''n'']
      else if c = CHR 0x0C then [CHR 0x5C, CHR ''f'']
      else if c = CHR 0x0D then [CHR 0x5C, CHR ''r'']
      else if (of_char c :: nat) < 32 then
        [CHR 0x5C, CHR ''u'', CHR ''0'', CHR ''0'',
         hex_char ((of_char c :: nat) div 16), hex_char ((of_char c :: nat) mod 16)]
      else [c])"

definition json_string :: "string \<Rightarrow> string" where
  "json_string s = CHR 0x22 # concat (map json_escape s) @ [CHR 0x22]"

subsection \<open>The cache\<close>

text \<open>
  \<^verbatim>\<open>const cache: { [key: string]: { data: any; timestamp: number } } = {}\<close>:
  an object used as a dictionary.  It is an association list in the order the
  keys were added, which is the order \<^verbatim>\<open>Object.keys\<close> lists them in.  The
  clock (\<^verbatim>\<open>Date.now()\<close>, milliseconds) is an argument.  \<^verbatim>\<open>getCache\<close>
  returns \<^verbatim>\<open>null\<close>, here \<open>None\<close>, when it has nothing to give; the values the
  router stores are objects, never \<^verbatim>\<open>null\<close>.  Keys that name a property every
  object inherits (\<^verbatim>\<open>constructor\<close>, \<^verbatim>\<open>__proto__\<close>, ...) are outside the
  model; the router derives none.
\<close>

record 'a cache_entry =
  data :: 'a
  timestamp :: int

type_synonym 'a cache = "(string \<times> 'a cache_entry) list"

definition CACHE_TTL :: int where
  "CACHE_TTL = 5 * 60 * 1000"

definition setCache :: "'a cache \<Rightarrow> string \<Rightarrow> 'a \<Rightarrow> int \<Rightarrow> 'a cache" where
  "setCache cache key d now = AList.update key \<lparr>data = d, timestamp = now\<rparr> cache"

definition getCache :: "'a cache \<Rightarrow> string \<Rightarrow> int \<Rightarrow> 'a option" where
  "getCache cache key now =
     (case map_of cache key of
        None \<Rightarrow> None
      | Some entry \<Rightarrow> if now - timestamp entry > CACHE_TTL then None else Some (data entry))"

definition invalidateCacheByPrefix :: "'a cache \<Rightarrow> string \<Rightarrow> 'a cache" where
  "invalidateCacheByPrefix cache pfx =
     fold (\<lambda>key c. if startsWith key pfx then AList.delete key c else c) (map fst cache) cache"

subsection \<open>Documents and the store\<close>

text \<open>
  The values \<^verbatim>\<open>JSON.parse\<close> produces and the collection holds.  Numbers are
  integers (the parser reads a number as a double, and the integers of
  magnitude up to \<open>2^53\<close> exactly).  An object is the list of its properties.
\<close>

datatype json =
  JNull
| JBool bool
| JNum int
| JStr string
| JArr "json list"
| JObj "(string \<times> json) list"

text \<open>\<^verbatim>\<open>v[name]\<close> on a parsed value: \<^verbatim>\<open>undefined\<close> unless \<open>v\<close> is an object with that property.\<close>

fun get_prop :: "json \<Rightarrow> string \<Rightarrow> json option" where
  "get_prop (JObj kvs) name = map_of kvs name"
| "get_prop _ name = None"

text \<open>
  The router builds two filters: \<^verbatim>\<open>{}\<close> and
  \<^verbatim>\<open>{ $or: [{ f: { $regex: p, $options: o } }, ...] }\<close>; the clauses are triples
  \<open>(f, p, o)\<close>.
\<close>

datatype query = MatchAll | AnyRegex "(string \<times> string \<times> string) list"

datatype db_call =
  InsertOne json
| DeleteOne int
| FindOne "int option"
| Find query string int int int
| CountDocuments query

datatype error = StoreError | SyntaxError

text \<open>
  The regular expressions are the store's: an engine takes the pattern and the
  options and gives the test of a string, or \<open>None\<close> where it rejects the pattern.
\<close>

type_synonym regex_engine = "string \<Rightarrow> string \<Rightarrow> (string \<Rightarrow> bool) option"

text \<open>
  The \<^verbatim>\<open>Db\<close> handle of the driver, as far as the router uses it: the documents
  of the collection \<^verbatim>\<open>users\<close> in insertion order, the calls made so far, whether
  the store answers (a call to a store that does not raises), its regular
  expression engine and its sort.  Documents are the \<^verbatim>\<open>User\<close> objects of the
  source: an \<^verbatim>\<open>id\<close> that is a number and \<^verbatim>\<open>name\<close>, \<^verbatim>\<open>username\<close> and
  \<^verbatim>\<open>email\<close> that are strings.  A property of another shape matches no filter
  here (the element-wise matching of arrays is not modelled).  The \<^verbatim>\<open>_id\<close>
  that the driver adds to an inserted document is left out.
\<close>

record Db =
  users :: "json list"
  calls :: "db_call list"
  available :: bool
  regex :: regex_engine
  sorted_by :: "string \<Rightarrow> int \<Rightarrow> json list \<Rightarrow> json list"

definition logged :: "Db \<Rightarrow> db_call \<Rightarrow> Db" where
  "logged db c = db\<lparr>calls := calls db @ [c]\<rparr>"

text \<open>The filter \<^verbatim>\<open>{ id: n }\<close>; \<^verbatim>\<open>NaN\<close> equals no number.\<close>

definition has_id :: "int option \<Rightarrow> json \<Rightarrow> bool" where
  "has_id n doc = (case n of None \<Rightarrow> False | Some i \<Rightarrow> get_prop doc ''id'' = Some (JNum i))"

text \<open>The clause \<^verbatim>\<open>{ f: { $regex: .. } }\<close> on a document, for the test \<open>m\<close> of the compiled pattern.\<close>

definition prop_matches :: "(string \<Rightarrow> bool) \<Rightarrow> string \<Rightarrow> json \<Rightarrow> bool" where
  "prop_matches m f doc = (case get_prop doc f of Some (JStr s) \<Rightarrow> m s | _ \<Rightarrow> False)"

definition clause_pred :: "regex_engine \<Rightarrow> string \<times> string \<times> string \<Rightarrow> (json \<Rightarrow> bool) option" where
  "clause_pred rx cl =
     (case cl of (f, pat, opts) \<Rightarrow>
        (case rx pat opts of
           None \<Rightarrow> None
         | Some m \<Rightarrow> Some (prop_matches m f)))"

fun query_pred :: "regex_engine \<Rightarrow> query \<Rightarrow> (json \<Rightarrow> bool) option" where
  "query_pred rx MatchAll = Some (\<lambda>doc. True)"
| "query_pred rx (AnyRegex cls) =
     (if list_all (\<lambda>cl. clause_pred rx cl \<noteq> None) cls
      then Some (\<lambda>doc. list_ex (\<lambda>cl. case clause_pred rx cl of None \<Rightarrow> False | Some p \<Rightarrow> p doc) cls)
      else None)"

fun remove_first :: "('a \<Rightarrow> bool) \<Rightarrow> 'a list \<Rightarrow> 'a list" where
  "remove_first P [] = []"
| "remove_first P (x # xs) = (if P x then xs else x # remove_first P xs)"

text \<open>Every operation returns what the driver's promise settles to, and the handle afterwards.\<close>

definition insertOne :: "Db \<Rightarrow> json \<Rightarrow> (error + unit) \<times> Db" where
  "insertOne db doc =
     (if available db then (Inr (), (logged db (InsertOne doc))\<lparr>users := users db @ [doc]\<rparr>)
      else (Inl StoreError, logged db (InsertOne doc)))"

definition findOne :: "Db \<Rightarrow> int option \<Rightarrow> (error + json option) \<times> Db" where
  "findOne db n =
     (if available db then (Inr (find (has_id n) (users db)), logged db (FindOne n))
      else (Inl StoreError, logged db (FindOne n)))"

text \<open>\<^verbatim>\<open>deleteOne({ id: n })\<close>; the result is \<^verbatim>\<open>deletedCount\<close>.\<close>

definition deleteOne :: "Db \<Rightarrow> int \<Rightarrow> (error + nat) \<times> Db" where
  "deleteOne db n =
     (if available db then
        (Inr (if list_ex (has_id (Some n)) (users db) then 1 else 0),
         (logged db (DeleteOne n))\<lparr>users := remove_first (has_id (Some n)) (users db)\<rparr>)
      else (Inl StoreError, logged db (DeleteOne n)))"

text \<open>\<^verbatim>\<open>find(q).sort({ [sortBy]: order }).skip(skip).limit(limit).toArray()\<close>.\<close>

definition find_page :: "Db \<Rightarrow> query \<Rightarrow> string \<Rightarrow> int \<Rightarrow> int \<Rightarrow> int \<Rightarrow> (error + json list) \<times> Db" where
  "find_page db q sortBy order skip limit =
     (if available db then
        (case query_pred (regex db) q of
           None \<Rightarrow> (Inl StoreError, logged db (Find q sortBy order skip limit))
         | Some p \<Rightarrow>
             (Inr (take (nat limit) (drop (nat skip) (sorted_by db sortBy order (filter p (users db))))),
              logged db (Find q sortBy order skip limit)))
      else (Inl StoreError, logged db (Find q sortBy order skip limit)))"

definition countDocuments :: "Db \<Rightarrow> query \<Rightarrow> (error + int) \<times> Db" where
  "countDocuments db q =
     (if available db then
        (case query_pred (regex db) q of
           None \<Rightarrow> (Inl StoreError, logged db (CountDocuments q))
         | Some p \<Rightarrow> (Inr (int (length (filter p (users db)))), logged db (CountDocuments q)))
      else (Inl StoreError, logged db (CountDocuments q)))"

subsection \<open>Requests and responses\<close>

text \<open>
  Of a request the router reads the method, the URL, the query parameters of
  \<^verbatim>\<open>new URL(req.url, `http://${req.headers.host}`)\<close> (the pairs of its
  \<^verbatim>\<open>searchParams\<close> in order; \<open>None\<close> when the constructor throws, as it does for
  a malformed \<^verbatim>\<open>Host\<close> header) and, for a PUT, \<^verbatim>\<open>JSON.parse\<close> of the body
  (\<open>None\<close> when it throws).  Both parsers are the runtime's.  The URL is
  built outside every \<^verbatim>\<open>try\<close>: when its constructor throws, the router's
  promise is rejected and no response is written.
\<close>

record request =
  req_method :: string
  url :: string
  parsedUrl :: "(string \<times> string) list option"
  parsed_body :: "json option"

text \<open>
  What a request reads from outside: \<^verbatim>\<open>Date.now()\<close> when the cache is looked
  up and when it is filled, and for \<^verbatim>\<open>/load\<close> the users fetched and assembled
  (posts and comments attached) before the first failed fetch, if any.
\<close>

record env =
  now :: int
  later :: int
  feed :: "json list"
  feed_ok :: bool

text \<open>
  The two objects the router caches:
  \<^verbatim>\<open>{ user, cached }\<close> and
  \<^verbatim>\<open>{ page, limit, totalUsers, totalPages, users, cached }\<close>.
\<close>

datatype payload =
  UserData json bool
| UsersData int int int int "json list" bool

text \<open>The value given to \<^verbatim>\<open>JSON.stringify\<close> for the response body.\<close>

datatype content =
  NoBody
| ErrorBody string
| MessageBody string
| Data payload
| Document json

record response =
  status :: nat
  headers :: "(string \<times> string) list"
  content :: content

text \<open>
  What a request leaves behind: the response written (\<open>None\<close> when the router
  writes none), the cache and the store.
\<close>

record outcome =
  res :: "response option"
  cache_out :: "payload cache"
  db_out :: Db

definition respond_json :: "nat \<Rightarrow> content \<Rightarrow> response" where
  "respond_json code c =
     \<lparr>status = code, headers = [(''Content-Type'', ''application/json'')], content = c\<rparr>"

text \<open>\<^verbatim>\<open>{ ...cachedData, cached: true }\<close>.\<close>

fun as_cached :: "payload \<Rightarrow> payload" where
  "as_cached (UserData u c) = UserData u True"
| "as_cached (UsersData p l t tp us c) = UsersData p l t tp us True"

text \<open>\<^verbatim>\<open>x || d\<close> for a string or \<^verbatim>\<open>null\<close>.\<close>

definition or_default :: "string option \<Rightarrow> string \<Rightarrow> string" where
  "or_default x d = (case x of None \<Rightarrow> d | Some s \<Rightarrow> if s = [] then d else s)"

text \<open>\<^verbatim>\<open>/^\/users\/\d+$/.test(url)\<close>.\<close>

definition is_user_path :: "string \<Rightarrow> bool" where
  "is_user_path u = (startsWith u ''/users/'' \<and> drop 7 u \<noteq> [] \<and> list_all is_digit (drop 7 u))"

text \<open>\<^verbatim>\<open>parseInt(url.split("/")[2])\<close>.\<close>

definition path_id :: "string \<Rightarrow> int option" where
  "path_id u =
     parseInt (case nth_opt (split_on CHR ''/'' u) 2 of None \<Rightarrow> ''undefined'' | Some s \<Rightarrow> s) 0"

text \<open>
  \<^verbatim>\<open>Math.ceil(a / b)\<close>, as the ceiling of the quotient.  The runtime rounds
  the quotient to a double before it takes the ceiling; for a count \<open>a\<close> below
  \<open>2^53\<close> and an integer \<open>b\<close> of at least 1 that changes nothing (the quotient
  is away from the integer below it by at least \<open>1/b\<close>, more than the rounding
  moves it).
\<close>

definition ceil_div :: "int \<Rightarrow> int \<Rightarrow> int" where
  "ceil_div a b = \<lceil>real_of_int a / real_of_int b\<rceil>"

subsection \<open>The router\<close>

text \<open>
  The key of a collection read:
  \<^verbatim>\<open>JSON.stringify({ page, limit, search, sortBy, order })\<close>, the properties in
  the order of the object literal.
\<close>

definition collection_key :: "int \<Rightarrow> int \<Rightarrow> string \<Rightarrow> string \<Rightarrow> int \<Rightarrow> string" where
  \<open>collection_key page limit search sortBy order =
     ''{"page":'' @ number_string page @ '',"limit":'' @ number_string limit
     @ '',"search":'' @ json_string search @ '',"sortBy":'' @ json_string sortBy
     @ '',"order":'' @ number_string order @ ''}''\<close>

text \<open>The key of a single-entity read: \<^verbatim>\<open>`/users/${userId}`\<close>.\<close>

definition user_key :: "int option \<Rightarrow> string" where
  "user_key userId = ''/users/'' @ nan_string userId"

definition validSortFields :: "string list" where
  "validSortFields = [''id'', ''name'', ''username'', ''email'']"

text \<open>The filter of a collection read.\<close>

definition users_query :: "string \<Rightarrow> query" where
  "users_query search =
     (if search \<noteq> [] then
        AnyRegex [(''name'', search, ''i''), (''username'', search, ''i''), (''email'', search, ''i'')]
      else MatchAll)"

text \<open>
  \<^verbatim>\<open>GET /load\<close>.  The loop inserts the users one by one; a store that does
  not answer, or a fetch that fails after the users of \<open>feed\<close>, ends it in the
  \<^verbatim>\<open>catch\<close>.
\<close>

fun insert_all :: "Db \<Rightarrow> json list \<Rightarrow> (error + unit) \<times> Db" where
  "insert_all db [] = (Inr (), db)"
| "insert_all db (u # us) =
     (case insertOne db u of
        (Inl e, db1) \<Rightarrow> (Inl e, db1)
      | (Inr _, db1) \<Rightarrow> insert_all db1 us)"

definition handle_load :: "env \<Rightarrow> payload cache \<Rightarrow> Db \<Rightarrow> outcome" where
  "handle_load e cache db =
     (case insert_all db (feed e) of
        (Inl err, db1) \<Rightarrow>
          \<lparr>res = Some (respond_json 500 (ErrorBody ''Failed to load data'')),
           cache_out = cache, db_out = db1\<rparr>
      | (Inr _, db1) \<Rightarrow>
          if feed_ok e then
            \<lparr>res = Some \<lparr>status = 200, headers = [], content = NoBody\<rparr>,
             cache_out = invalidateCacheByPrefix cache ''/users'', db_out = db1\<rparr>
          else
            \<lparr>res = Some (respond_json 500 (ErrorBody ''Failed to load data'')),
             cache_out = cache, db_out = db1\<rparr>)"

text \<open>\<^verbatim>\<open>DELETE /users/:userId\<close>.\<close>

definition handle_delete :: "request \<Rightarrow> payload cache \<Rightarrow> Db \<Rightarrow> outcome" where
  "handle_delete req cache db =
     (case path_id (url req) of
        None \<Rightarrow>
          \<lparr>res = Some (respond_json 400 (ErrorBody ''Invalid userId'')),
           cache_out = cache, db_out = db\<rparr>
      | Some userId \<Rightarrow>
          (case deleteOne db userId of
             (Inl err, db1) \<Rightarrow>
               \<lparr>res = Some (respond_json 500 (ErrorBody ''Failed to delete user'')),
                cache_out = cache, db_out = db1\<rparr>
           | (Inr deletedCount, db1) \<Rightarrow>
               if deletedCount = 0 then
                 \<lparr>res = Some (respond_json 404 (ErrorBody ''User not found'')),
                  cache_out = cache, db_out = db1\<rparr>
               else
                 \<lparr>res = Some (respond_json 200 (MessageBody ''User deleted successfully'')),
                  cache_out = invalidateCacheByPrefix cache ''/users'', db_out = db1\<rparr>))"

text \<open>\<^verbatim>\<open>GET /users/:userId\<close>, with the cache.\<close>

definition handle_get_user :: "request \<Rightarrow> env \<Rightarrow> payload cache \<Rightarrow> Db \<Rightarrow> outcome" where
  "handle_get_user req e cache db =
     (let userId = path_id (url req);
          cacheKey = user_key userId
      in case getCache cache cacheKey (now e) of
           Some cachedData \<Rightarrow>
             \<lparr>res = Some (respond_json 200 (Data (as_cached cachedData))),
              cache_out = cache, db_out = db\<rparr>
         | None \<Rightarrow>
             (case findOne db userId of
                (Inl err, db1) \<Rightarrow>
                  \<lparr>res = Some (respond_json 500 (ErrorBody ''Failed to fetch user'')),
                   cache_out = cache, db_out = db1\<rparr>
              | (Inr None, db1) \<Rightarrow>
                  \<lparr>res = Some (respond_json 404 (ErrorBody ''User not found'')),
                   cache_out = cache, db_out = db1\<rparr>
              | (Inr (Some user), db1) \<Rightarrow>
                  \<lparr>res = Some (respond_json 200 (Data (UserData user False))),
                   cache_out = setCache cache cacheKey (UserData user False) (later e),
                   db_out = db1\<rparr>))"

text \<open>
  \<^verbatim>\<open>GET /users?page=..&limit=..&search=..&sortBy=..&order=..\<close>: first the
  normalised parameters.
\<close>

definition param :: "(string \<times> string) list \<Rightarrow> string \<Rightarrow> string option" where
  "param ps name = map_of ps name"

definition page_of :: "(string \<times> string) list \<Rightarrow> int option" where
  "page_of ps = parseInt (or_default (param ps ''page'') ''1'') 10"

definition limit_of :: "(string \<times> string) list \<Rightarrow> int option" where
  "limit_of ps = parseInt (or_default (param ps ''limit'') ''5'') 10"

definition search_of :: "(string \<times> string) list \<Rightarrow> string" where
  "search_of ps = (case param ps ''search'' of None \<Rightarrow> [] | Some s \<Rightarrow> toLowerCase s)"

definition sortBy_of :: "(string \<times> string) list \<Rightarrow> string" where
  "sortBy_of ps = or_default (param ps ''sortBy'') ''id''"

definition order_of :: "(string \<times> string) list \<Rightarrow> int" where
  "order_of ps = (if param ps ''order'' = Some ''desc'' then - 1 else 1)"

text \<open>
  The part after the two validations.  The subtraction and the multiplication
  of \<^verbatim>\<open>(page - 1) * limit\<close> are those of doubles.
\<close>

definition list_users ::
  "int \<Rightarrow> int \<Rightarrow> string \<Rightarrow> string \<Rightarrow> int \<Rightarrow> env \<Rightarrow> payload cache \<Rightarrow> Db \<Rightarrow> outcome" where
  "list_users page limit search sortBy order e cache db =
     (let skip = to_double (to_double (page - 1) * limit);
          q = users_query search;
          cacheKey = collection_key page limit search sortBy order
      in case getCache cache cacheKey (now e) of
           Some cachedData \<Rightarrow>
             \<lparr>res = Some (respond_json 200 (Data (as_cached cachedData))),
              cache_out = cache, db_out = db\<rparr>
         | None \<Rightarrow>
             (case find_page db q sortBy order skip limit of
                (Inl err, db1) \<Rightarrow>
                  \<lparr>res = Some (respond_json 500 (ErrorBody ''Failed to fetch users'')),
                   cache_out = cache, db_out = db1\<rparr>
              | (Inr us, db1) \<Rightarrow>
                  (case countDocuments db1 q of
                     (Inl err, db2) \<Rightarrow>
                       \<lparr>res = Some (respond_json 500 (ErrorBody ''Failed to fetch users'')),
                        cache_out = cache, db_out = db2\<rparr>
                   | (Inr totalUsers, db2) \<Rightarrow>
                       (let responseData =
                              UsersData page limit totalUsers (ceil_div totalUsers limit) us False
                        in \<lparr>res = Some (respond_json 200 (Data responseData)),
                            cache_out = setCache cache cacheKey responseData (later e),
                            db_out = db2\<rparr>))))"

definition handle_get_users :: "request \<Rightarrow> env \<Rightarrow> payload cache \<Rightarrow> Db \<Rightarrow> outcome" where
  "handle_get_users req e cache db =
     (case parsedUrl req of
        None \<Rightarrow> \<lparr>res = None, cache_out = cache, db_out = db\<rparr>
      | Some ps \<Rightarrow>
          (let page = page_of ps;
               limit = limit_of ps;
               search = search_of ps;
               sortBy = sortBy_of ps;
               order = order_of ps
           in case (page, limit) of
                (Some p, Some l) \<Rightarrow>
                  if p < 1 \<or> l < 1 then
                    \<lparr>res = Some (respond_json 400 (ErrorBody ''Invalid page or limit value'')),
                     cache_out = cache, db_out = db\<rparr>
                  else if sortBy \<notin> set validSortFields then
                    \<lparr>res = Some (respond_json 400
                       (ErrorBody (''Invalid sortBy field. Must be one of: ''
                                   @ join '', '' validSortFields))),
                     cache_out = cache, db_out = db\<rparr>
                  else list_users p l search sortBy order e cache db
              | _ \<Rightarrow>
                  \<lparr>res = Some (respond_json 400 (ErrorBody ''Invalid page or limit value'')),
                   cache_out = cache, db_out = db\<rparr>))"

text \<open>
  \<^verbatim>\<open>PUT /users\<close>, once the body has arrived.  \<^verbatim>\<open>JSON.parse\<close> is inside the
  \<^verbatim>\<open>try\<close>: when it throws, the \<^verbatim>\<open>catch\<close> answers.
\<close>

definition numeric_id :: "json \<Rightarrow> int option" where
  "numeric_id v = (case get_prop v ''id'' of Some (JNum n) \<Rightarrow> Some n | _ \<Rightarrow> None)"

definition handle_put_user :: "request \<Rightarrow> payload cache \<Rightarrow> Db \<Rightarrow> outcome" where
  "handle_put_user req cache db =
     (case parsed_body req of
        None \<Rightarrow>
          \<lparr>res = Some (respond_json 500 (ErrorBody ''Failed to add user'')),
           cache_out = cache, db_out = db\<rparr>
      | Some newUser \<Rightarrow>
          (case numeric_id newUser of
             None \<Rightarrow>
               \<lparr>res = Some (respond_json 400 (ErrorBody ''Invalid user data'')),
                cache_out = cache, db_out = db\<rparr>
           | Some n \<Rightarrow>
               (case findOne db (Some n) of
                  (Inl err, db1) \<Rightarrow>
                    \<lparr>res = Some (respond_json 500 (ErrorBody ''Failed to add user'')),
                     cache_out = cache, db_out = db1\<rparr>
                | (Inr (Some existingUser), db1) \<Rightarrow>
                    \<lparr>res = Some (respond_json 400 (ErrorBody ''User already exists.'')),
                     cache_out = cache, db_out = db1\<rparr>
                | (Inr None, db1) \<Rightarrow>
                    (case insertOne db1 newUser of
                       (Inl err, db2) \<Rightarrow>
                         \<lparr>res = Some (respond_json 500 (ErrorBody ''Failed to add user'')),
                          cache_out = cache, db_out = db2\<rparr>
                     | (Inr _, db2) \<Rightarrow>
                         \<lparr>res = Some
                            \<lparr>status = 201,
                             headers = [(''Content-Type'', ''application/json''),
                                        (''Location'', ''/users/'' @ number_string n)],
                             content = Document newUser\<rparr>,
                          cache_out = invalidateCacheByPrefix cache ''/users'',
                          db_out = db2\<rparr>))))"

definition userRouter :: "request \<Rightarrow> env \<Rightarrow> payload cache \<Rightarrow> Db \<Rightarrow> outcome" where
  "userRouter req e cache db =
     (if req_method req = ''GET'' \<and> url req = ''/load'' then handle_load e cache db
      else if req_method req = ''DELETE'' \<and> startsWith (url req) ''/users/'' then
        handle_delete req cache db
      else if req_method req = ''GET'' \<and> is_user_path (url req) then
        handle_get_user req e cache db
      else if req_method req = ''GET'' \<and> startsWith (url req) ''/users'' then
        handle_get_users req e cache db
      else if req_method req = ''PUT'' \<and> url req = ''/users'' then
        handle_put_user req cache db
      else \<lparr>res = None, cache_out = cache, db_out = db\<rparr>)"

subsection \<open>A store to run the router on\<close>

text \<open>
  For running the router on concrete requests: a regular expression engine
  for the patterns made of ordinary ASCII characters and the dot, which behaves
  on them as the store's engine does (an ordinary character matches itself,
  under the option \<^verbatim>\<open>i\<close> in either case; the dot matches every character but
  the line feed; the match may start anywhere in the string), and a sort on
  one property (numbers by value, strings by character codes).  The engine
  refuses every other pattern; among them are the patterns the store's engine
  cannot compile, as a lone opening parenthesis.
\<close>

definition plain_char :: "char \<Rightarrow> bool" where
  "plain_char c =
     ((of_char c :: nat) < 128
      \<and> c \<notin> set [CHR 0x5C, CHR ''^'', CHR ''$'', CHR ''.'', CHR ''|'', CHR ''?'', CHR ''*'',
                     CHR ''+'', CHR ''('', CHR '')'', CHR ''['', CHR '']'', CHR ''{'', CHR ''}''])"

definition rx_char :: "bool \<Rightarrow> char \<Rightarrow> char \<Rightarrow> bool" where
  "rx_char ci p c =
     (if p = CHR ''.'' then c \<noteq> CHR 0x0A
      else if ci then lower_char p = lower_char c
      else p = c)"

fun rx_at :: "bool \<Rightarrow> string \<Rightarrow> string \<Rightarrow> bool" where
  "rx_at ci [] s = True"
| "rx_at ci (p # ps) [] = False"
| "rx_at ci (p # ps) (c # cs) = (rx_char ci p c \<and> rx_at ci ps cs)"

fun rx_search :: "bool \<Rightarrow> string \<Rightarrow> string \<Rightarrow> bool" where
  "rx_search ci pat [] = rx_at ci pat []"
| "rx_search ci pat (c # cs) = (rx_at ci pat (c # cs) \<or> rx_search ci pat cs)"

definition dot_engine :: regex_engine where
  "dot_engine pat opts =
     (if list_all (\<lambda>c. if c = CHR ''.'' then True else plain_char c) pat
      then Some (rx_search (CHR ''i'' \<in> set opts) pat)
      else None)"

fun str_le :: "string \<Rightarrow> string \<Rightarrow> bool" where
  "str_le [] t = True"
| "str_le (c # cs) [] = False"
| "str_le (c # cs) (d # ds) =
     ((of_char c :: nat) < of_char d \<or> (c = d \<and> str_le cs ds))"

fun prop_le :: "json option \<Rightarrow> json option \<Rightarrow> bool" where
  "prop_le (Some (JNum a)) (Some (JNum b)) = (a \<le> b)"
| "prop_le (Some (JStr a)) (Some (JStr b)) = str_le a b"
| "prop_le x y = True"

fun insert_by :: "string \<Rightarrow> json \<Rightarrow> json list \<Rightarrow> json list" where
  "insert_by f d [] = [d]"
| "insert_by f d (x # xs) =
     (if prop_le (get_prop d f) (get_prop x f) then d # x # xs else x # insert_by f d xs)"

definition sort_on :: "string \<Rightarrow> int \<Rightarrow> json list \<Rightarrow> json list" where
  "sort_on f order ds = (let s = foldr (insert_by f) ds [] in if order < 0 then rev s else s)"

definition store_of :: "json list \<Rightarrow> Db" where
  "store_of docs =
     \<lparr>users = docs, calls = [], available = True, regex = dot_engine, sorted_by = sort_on\<rparr>"

definition user_doc :: "int \<Rightarrow> string \<Rightarrow> string \<Rightarrow> string \<Rightarrow> json" where
  "user_doc i n u m =
     JObj [(''id'', JNum i), (''name'', JStr n), (''username'', JStr u), (''email'', JStr m)]"

subsection \<open>Auxiliary notions for the proofs\<close>

text \<open>The characters a printed number is made of.\<close>

definition num_char :: "char \<Rightarrow> bool" where
  "num_char c = (is_digit c \<or> c = CHR ''-'')"

text \<open>
  The requests each branch of the router takes, read off its conditions in
  their order: a collection read is a GET whose URL starts with \<^verbatim>\<open>/users\<close>
  and is not the path of a single user.
\<close>

definition is_collection_read :: "request \<Rightarrow> bool" where
  "is_collection_read req =
     (req_method req = ''GET'' \<and> startsWith (url req) ''/users'' \<and> \<not> is_user_path (url req))"

definition is_delete :: "request \<Rightarrow> bool" where
  "is_delete req = (req_method req = ''DELETE'' \<and> startsWith (url req) ''/users/'')"

definition is_put :: "request \<Rightarrow> bool" where
  "is_put req = (req_method req = ''PUT'' \<and> url req = ''/users'')"

definition handled :: "request \<Rightarrow> bool" where
  "handled req =
     (req_method req = ''GET'' \<and> url req = ''/load''
      \<or> req_method req = ''DELETE'' \<and> startsWith (url req) ''/users/''
      \<or> req_method req = ''GET'' \<and> is_user_path (url req)
      \<or> req_method req = ''GET'' \<and> startsWith (url req) ''/users''
      \<or> req_method req = ''PUT'' \<and> url req = ''/users'')"

text \<open>A page or limit the router rejects: \<^verbatim>\<open>NaN\<close>, or less than 1.\<close>

definition rejected_count :: "int option \<Rightarrow> bool" where
  "rejected_count x = (case x of None \<Rightarrow> True | Some n \<Rightarrow> n < 1)"

text \<open>
  Requests and an environment for the examples: a request without a body whose
  URL has the given query parameters, a PUT of a parsed body, and an
  environment whose clock stands at \<open>t\<close> and whose feed is empty.
\<close>

definition request_of :: "string \<Rightarrow> string \<Rightarrow> (string \<times> string) list \<Rightarrow> request" where
  "request_of m u ps = \<lparr>req_method = m, url = u, parsedUrl = Some ps, parsed_body = None\<rparr>"

definition put_of :: "json option \<Rightarrow> request" where
  "put_of b = \<lparr>req_method = ''PUT'', url = ''/users'', parsedUrl = Some [], parsed_body = b\<rparr>"

definition env_at :: "int \<Rightarrow> env" where
  "env_at t = \<lparr>now = t, later = t, feed = [], feed_ok = True\<rparr>"

text \<open>
  What the router keeps in the cache: under the key of a collection read a
  page object of that page and limit, whose \<open>totalPages\<close> is the ceiling of
  \<open>totalUsers / limit\<close>; under the key of a single-entity read a user object;
  both with \<open>cached\<close> false.
\<close>

definition entry_ok :: "string \<Rightarrow> payload \<Rightarrow> bool" where
  "entry_ok k d =
     (case d of
        UsersData p l t tp us c \<Rightarrow>
          tp = ceil_div t l \<and> c = False \<and> (\<exists>s b ord. k = collection_key p l s b ord)
      | UserData u c \<Rightarrow> c = False \<and> (\<exists>i. k = user_key i))"

definition cache_ok :: "payload cache \<Rightarrow> bool" where
  "cache_ok cache = list_all (\<lambda>(k, en). entry_ok k (data en)) cache"

text \<open>A sequence of requests, each with the environment it meets, one after the other.\<close>

fun run :: "(request \<times> env) list \<Rightarrow> payload cache \<Rightarrow> Db \<Rightarrow> payload cache \<times> Db" where
  "run [] cache db = (cache, db)"
| "run ((req, e) # rest) cache db =
     run rest (cache_out (userRouter req e cache db)) (db_out (userRouter req e cache db))"

text \<open>
  For stating what a search does not select: a string occurs in another as a
  literal substring, case ignored.
\<close>

definition contains_ci :: "string \<Rightarrow> string \<Rightarrow> bool" where
  "contains_ci needle hay = sublist (toLowerCase needle) (toLowerCase hay)"

section \<open>Properties\<close>

subsection \<open>Doubles\<close>

declare bit_length.simps [simp del]

lemma bit_length_le: "n < 2 ^ k \<Longrightarrow> bit_length n \<le> k"
proof (induction k arbitrary: n)
  case 0
  then show ?case by (subst bit_length.simps) simp
next
  case (Suc k)
  show ?case
  proof (cases "n = 0")
    case True
    then show ?thesis by (subst bit_length.simps) simp
  next
    case False
    from Suc.prems have "n div 2 < 2 ^ k" by simp
    from Suc.IH [OF this] False show ?thesis by (subst bit_length.simps) simp
  qed
qed

text \<open>An integer of magnitude below \<open>2^53\<close> is a double.\<close>

lemma to_double_small: "\<bar>i\<bar> < 2 ^ 53 \<Longrightarrow> to_double i = i"
proof -
  assume a: "\<bar>i\<bar> < 2 ^ 53"
  then have "nat \<bar>i\<bar> < 2 ^ 53" by (simp add: nat_less_iff)
  then have "bit_length (nat \<bar>i\<bar>) - 53 = 0"
    using bit_length_le [of "nat \<bar>i\<bar>" 53] by simp
  then show ?thesis
    by (simp add: to_double_def Let_def sgn_if abs_if)
qed

lemma bit_length_eq: "2 ^ k \<le> n \<Longrightarrow> n < 2 ^ Suc k \<Longrightarrow> bit_length n = Suc k"
proof (induction k arbitrary: n)
  case 0
  then have "n = 1" by simp
  then show ?case by (simp add: bit_length.simps [of "Suc 0"] bit_length.simps [of 0])
next
  case (Suc k)
  from Suc.prems have "2 ^ k \<le> n div 2" "n div 2 < 2 ^ Suc k" "n \<noteq> 0"
    by auto
  from Suc.IH [OF this(1) this(2)] this(3) show ?case
    by (subst bit_length.simps) simp
qed

text \<open>
  An integer of \<open>53 + e\<close> binary digits keeps the first 53; the last \<open>e\<close> are
  rounded away.
\<close>

lemma to_double_rounds:
  assumes "2 ^ (52 + e) \<le> a" and "a < 2 ^ (53 + e)"
  shows "to_double (int a)
     = int ((if 2 ^ e < 2 * (a mod 2 ^ e) \<or> (2 * (a mod 2 ^ e) = 2 ^ e \<and> odd (a div 2 ^ e))
             then a div 2 ^ e + 1 else a div 2 ^ e) * 2 ^ e)"
proof -
  from assms have "bit_length a = Suc (52 + e)"
    by (intro bit_length_eq) simp_all
  then have e: "bit_length a - 53 = e" by simp
  from assms(1) have "0 < a"
    by (cases "a = 0") simp_all
  then have "sgn (int a) = 1" by simp
  with e show ?thesis
    by (simp add: to_double_def Let_def)
qed

text \<open>Where \<open>(page - 1) * limit\<close> stays below \<open>2^53\<close>, the doubles compute it exactly.\<close>

lemma skip_exact:
  assumes "1 \<le> p" and "1 \<le> l" and "(p - 1) * l < 2 ^ 53"
  shows "to_double (to_double (p - 1) * l) = (p - 1) * l"
proof -
  have "0 \<le> p - 1" using assms(1) by simp
  then have "(p - 1) * 1 \<le> (p - 1) * l"
    using assms(2) by (intro mult_left_mono) simp_all
  with assms(3) \<open>0 \<le> p - 1\<close> have "\<bar>p - 1\<bar> < 2 ^ 53" by simp
  then have 1: "to_double (p - 1) = p - 1" by (rule to_double_small)
  have "0 \<le> (p - 1) * l" using \<open>0 \<le> p - 1\<close> assms(2) by simp
  with assms(3) have "\<bar>(p - 1) * l\<bar> < 2 ^ 53" by simp
  then show ?thesis by (simp add: 1 to_double_small)
qed

subsection \<open>The cache\<close>

lemma CACHE_TTL_ms: "CACHE_TTL = 300000"
  by (simp add: CACHE_TTL_def)

lemma getCache_empty: "getCache [] k t = None"
  by (simp add: getCache_def)

lemma map_of_setCache:
  "map_of (setCache cache k v t0) k' =
     (if k' = k then Some \<lparr>data = v, timestamp = t0\<rparr> else map_of cache k')"
  by (simp add: setCache_def update_conv')

text \<open>
  C2.  The time to live is 300000 ms.  After \<open>setCache k v\<close> at \<open>t0\<close>, the
  lookup of \<open>k\<close> at \<open>t\<close> gives \<open>v\<close> when \<open>t - t0\<close> is at most the time to live and
  nothing when it is more; nothing is also what the lookup of a key without an
  entry gives.
\<close>

theorem getCache_after_setCache:
  "CACHE_TTL = 300000
   \<and> getCache (setCache cache k v t0) k t = (if t - t0 \<le> CACHE_TTL then Some v else None)
   \<and> getCache (AList.delete k cache) k t = None"
  by (simp add: getCache_def map_of_setCache CACHE_TTL_ms delete_conv')

lemma fold_delete_map_of:
  "map_of (fold (\<lambda>key c. if startsWith key p then AList.delete key c else c) ks cache) k
     = (if k \<in> set ks \<and> startsWith k p then None else map_of cache k)"
  by (induction ks arbitrary: cache) (auto simp: delete_conv')

lemma map_of_invalidate:
  "map_of (invalidateCacheByPrefix cache p) k = (if startsWith k p then None else map_of cache k)"
  unfolding invalidateCacheByPrefix_def fold_delete_map_of
  by (auto simp: map_of_eq_None_iff)

lemma fold_delete_none:
  "\<forall>k \<in> set ks. \<not> startsWith k p \<Longrightarrow>
   fold (\<lambda>key c. if startsWith key p then AList.delete key c else c) ks cache = cache"
  by (induction ks arbitrary: cache) auto

lemma fold_delete_filter:
  "fold (\<lambda>key c. if startsWith key p then AList.delete key c else c) ks cache
     = filter (\<lambda>(k, e). \<not> (k \<in> set ks \<and> startsWith k p)) cache"
proof (induction ks arbitrary: cache)
  case Nil
  then show ?case by simp
next
  case (Cons a ks)
  have "filter (\<lambda>(k, e). \<not> (k \<in> set ks \<and> startsWith k p)) (AList.delete a cache)
          = filter (\<lambda>(k, e). \<not> (k \<in> set (a # ks) \<and> startsWith k p)) cache"
    if "startsWith a p"
    unfolding AList.delete_eq filter_filter using that
    by (intro filter_cong) auto
  moreover have "filter (\<lambda>(k, e). \<not> (k \<in> set ks \<and> startsWith k p)) cache
          = filter (\<lambda>(k, e). \<not> (k \<in> set (a # ks) \<and> startsWith k p)) cache"
    if "\<not> startsWith a p"
    using that by (intro filter_cong) auto
  ultimately show ?case
    by (simp add: Cons.IH del: set_simps)
qed

text \<open>The loop over \<^verbatim>\<open>Object.keys(cache)\<close> keeps exactly the entries whose key lacks the prefix.\<close>

lemma invalidate_filter:
  "invalidateCacheByPrefix cache p = filter (\<lambda>(k, e). \<not> startsWith k p) cache"
  unfolding invalidateCacheByPrefix_def fold_delete_filter
  by (rule filter_cong) force+

lemma invalidate_idem:
  "invalidateCacheByPrefix (invalidateCacheByPrefix cache p) p = invalidateCacheByPrefix cache p"
  by (simp add: invalidate_filter)

text \<open>
  C3.  After \<open>invalidateCacheByPrefix p\<close>: a key that starts with \<open>p\<close> has no
  entry to be found; under a key that does not start with \<open>p\<close> the entry (value
  and timestamp) is the one from before; a cache without a key that starts with
  the prefix is left as it is; and a second invalidation changes nothing.
\<close>

theorem invalidateCacheByPrefix_scope:
  "(startsWith k p \<longrightarrow> getCache (invalidateCacheByPrefix cache p) k t = None)
   \<and> (\<not> startsWith k' p \<longrightarrow>
        map_of (invalidateCacheByPrefix cache p) k' = map_of cache k')
   \<and> (list_all (\<lambda>x. \<not> startsWith x p') (map fst cache') \<longrightarrow>
        invalidateCacheByPrefix cache' p' = cache')
   \<and> invalidateCacheByPrefix (invalidateCacheByPrefix cache p) p
       = invalidateCacheByPrefix cache p"
proof (intro conjI impI)
  assume "startsWith k p"
  then show "getCache (invalidateCacheByPrefix cache p) k t = None"
    by (simp add: getCache_def map_of_invalidate)
next
  assume "\<not> startsWith k' p"
  then show "map_of (invalidateCacheByPrefix cache p) k' = map_of cache k'"
    by (simp add: map_of_invalidate)
next
  assume "list_all (\<lambda>x. \<not> startsWith x p') (map fst cache')"
  then have "\<forall>x \<in> set (map fst cache'). \<not> startsWith x p'"
    by (simp add: list_all_iff)
  then show "invalidateCacheByPrefix cache' p' = cache'"
    unfolding invalidateCacheByPrefix_def by (rule fold_delete_none)
next
  show "invalidateCacheByPrefix (invalidateCacheByPrefix cache p) p
          = invalidateCacheByPrefix cache p"
    by (rule invalidate_idem)
qed

theorem invalidateCacheByPrefix_scope_witness:
  \<open>startsWith ''/users/1'' ''/users''
   \<and> getCache (invalidateCacheByPrefix
        [(''/users/1'', \<lparr>data = (1::nat), timestamp = 10\<rparr>), (''{"page":1}'', \<lparr>data = 2, timestamp = 20\<rparr>)]
        ''/users'') ''/users/1'' 30 = None
   \<and> map_of (invalidateCacheByPrefix
        [(''/users/1'', \<lparr>data = (1::nat), timestamp = 10\<rparr>), (''{"page":1}'', \<lparr>data = 2, timestamp = 20\<rparr>)]
        ''/users'') ''{"page":1}'' = Some \<lparr>data = 2, timestamp = 20\<rparr>
   \<and> invalidateCacheByPrefix
        [(''/users/1'', \<lparr>data = (1::nat), timestamp = 10\<rparr>), (''{"page":1}'', \<lparr>data = 2, timestamp = 20\<rparr>)]
        ''/posts''
       = [(''/users/1'', \<lparr>data = (1::nat), timestamp = 10\<rparr>), (''{"page":1}'', \<lparr>data = 2, timestamp = 20\<rparr>)]\<close>
  using invalidateCacheByPrefix_scope
    [of \<open>''/users/1''\<close> \<open>''/users''\<close>
        \<open>[(''/users/1'', \<lparr>data = (1::nat), timestamp = 10\<rparr>), (''{"page":1}'', \<lparr>data = 2, timestamp = 20\<rparr>)]\<close>
        30 \<open>''{"page":1}''\<close> \<open>''/posts''\<close>
        \<open>[(''/users/1'', \<lparr>data = (1::nat), timestamp = 10\<rparr>), (''{"page":1}'', \<lparr>data = 2, timestamp = 20\<rparr>)]\<close>]
  by (simp add: startsWith_def)

subsection \<open>Cache keys\<close>

declare decimal.simps [simp del]

lemma of_char_digit_char: "d < 10 \<Longrightarrow> (of_char (digit_char d) :: nat) = 48 + d"
  by (simp add: digit_char_def)

lemma digit_of_digit_char: "d < 10 \<Longrightarrow> digit_of (digit_char d) = Some d"
  by (simp add: digit_of_def of_char_digit_char)

lemma is_digit_digit_char: "d < 10 \<Longrightarrow> is_digit (digit_char d)"
  by (simp add: is_digit_def of_char_digit_char)

lemma digits_value_snoc:
  "digits_value r (ds @ [c]) = (case digit_of c of None \<Rightarrow> digits_value r ds | Some d \<Rightarrow> digits_value r ds * r + d)"
  by (simp add: digits_value_def split: option.split)

lemma digits_value_decimal: "digits_value 10 (decimal n) = n"
proof (induction n rule: decimal.induct)
  case (1 n)
  show ?case
  proof (cases "n < 10")
    case True
    then show ?thesis by (subst decimal.simps) (simp add: digits_value_def digit_of_digit_char)
  next
    case False
    then have "digits_value 10 (decimal n) = digits_value 10 (decimal (n div 10)) * 10 + n mod 10"
      by (subst decimal.simps) (simp add: digits_value_snoc digit_of_digit_char)
    with False 1 show ?thesis by simp
  qed
qed

lemma decimal_inj: "decimal m = decimal n \<Longrightarrow> m = n"
  by (metis digits_value_decimal)

lemma decimal_digits: "list_all is_digit (decimal n)"
proof (induction n rule: decimal.induct)
  case (1 n)
  show ?case
  proof (cases "n < 10")
    case True
    then show ?thesis by (subst decimal.simps) (simp add: is_digit_digit_char)
  next
    case False
    with 1 show ?thesis by (subst decimal.simps) (simp add: is_digit_digit_char)
  qed
qed

lemma decimal_not_Nil: "decimal n \<noteq> []"
  by (subst decimal.simps) simp

lemma number_string_chars: "list_all num_char (number_string i)"
  using decimal_digits [of "nat i"] decimal_digits [of "nat (- i)"]
  by (auto simp: number_string_def num_char_def list_all_iff)

lemma not_digit_minus: "\<not> is_digit CHR ''-''"
  by (simp add: is_digit_def)

lemma number_string_inj: "number_string i = number_string j \<Longrightarrow> i = j"
proof -
  assume eq: "number_string i = number_string j"
  have hd_dec: "decimal n \<noteq> CHR ''-'' # xs" for n xs
    using decimal_digits [of n] not_digit_minus by auto
  show ?thesis
  proof (cases "i < 0"; cases "j < 0")
    assume "i < 0" "j < 0"
    with eq have "nat (- i) = nat (- j)" by (auto simp: number_string_def dest: decimal_inj)
    with \<open>i < 0\<close> \<open>j < 0\<close> show ?thesis by simp
  next
    assume "i < 0" "\<not> j < 0"
    with eq hd_dec [of "nat j" "decimal (nat (- i))"] show ?thesis by (simp add: number_string_def)
  next
    assume "\<not> i < 0" "j < 0"
    with eq hd_dec [of "nat i" "decimal (nat (- j))"] show ?thesis by (simp add: number_string_def)
  next
    assume "\<not> i < 0" "\<not> j < 0"
    with eq have "nat i = nat j" by (auto simp: number_string_def dest: decimal_inj)
    with \<open>\<not> i < 0\<close> \<open>\<not> j < 0\<close> show ?thesis by simp
  qed
qed

lemma run_then_stop:
  "list_all P xs \<Longrightarrow> list_all P ys \<Longrightarrow> \<not> P c \<Longrightarrow> \<not> P d \<Longrightarrow>
   xs @ c # r = ys @ d # r' \<Longrightarrow> xs = ys \<and> c # r = d # r'"
proof (induction xs arbitrary: ys)
  case Nil
  then show ?case by (cases ys) auto
next
  case (Cons x xs)
  then show ?case by (cases ys) auto
qed

lemma hex_char_code:
  "d < 16 \<Longrightarrow> (of_char (hex_char d) :: nat) = (if d < 10 then 48 + d else 87 + d)"
  by (simp add: hex_char_def)

lemma hex_char_inj: "a < 16 \<Longrightarrow> b < 16 \<Longrightarrow> hex_char a = hex_char b \<Longrightarrow> a = b"
proof -
  assume a: "a < 16" and b: "b < 16" and eq: "hex_char a = hex_char b"
  from eq have "(of_char (hex_char a) :: nat) = of_char (hex_char b)" by simp
  with a b show ?thesis by (simp add: hex_char_code split: if_splits)
qed

lemma control_char_eq:
  assumes "(of_char c :: nat) < 32" "(of_char c' :: nat) < 32"
    and "hex_char ((of_char c :: nat) div 16) = hex_char ((of_char c' :: nat) div 16)"
    and "hex_char ((of_char c :: nat) mod 16) = hex_char ((of_char c' :: nat) mod 16)"
  shows "c = c'"
proof -
  have "(of_char c :: nat) div 16 = (of_char c' :: nat) div 16"
    using assms(1,2,3) by (intro hex_char_inj) auto
  moreover have "(of_char c :: nat) mod 16 = (of_char c' :: nat) mod 16"
    using assms(4) by (intro hex_char_inj) auto
  ultimately have "(of_char c :: nat) = of_char c'"
    by (metis div_mult_mod_eq)
  then show ?thesis by simp
qed

lemma json_escape_not_Nil: "json_escape c \<noteq> []"
  by (simp add: json_escape_def)

lemma json_escape_no_quote_first: "json_escape c @ r \<noteq> CHR 0x22 # r'"
  by (simp add: json_escape_def)

lemma json_escape_prefix_code:
  "json_escape c @ r = json_escape c' @ r' \<Longrightarrow> c = c' \<and> r = r'"
  unfolding json_escape_def
  by (auto split: if_splits dest: control_char_eq)

lemma escaped_then_quote:
  "concat (map json_escape s) @ CHR 0x22 # r = concat (map json_escape s') @ CHR 0x22 # r'
   \<Longrightarrow> s = s' \<and> r = r'"
proof (induction s arbitrary: s')
  case Nil
  show ?case
  proof (cases s')
    case Nil
    with Nil.prems show ?thesis by simp
  next
    case (Cons c' t')
    with Nil.prems have
      "json_escape c' @ (concat (map json_escape t') @ CHR 0x22 # r') = CHR 0x22 # r"
      by simp
    with json_escape_no_quote_first [of c' "concat (map json_escape t') @ CHR 0x22 # r'" r]
    show ?thesis by simp
  qed
next
  case (Cons c s)
  show ?case
  proof (cases s')
    case Nil
    with Cons.prems have
      "json_escape c @ (concat (map json_escape s) @ CHR 0x22 # r) = CHR 0x22 # r'"
      by simp
    with json_escape_no_quote_first [of c "concat (map json_escape s) @ CHR 0x22 # r" r']
    show ?thesis by simp
  next
    case (Cons c' t')
    with Cons.prems have
      "json_escape c @ (concat (map json_escape s) @ CHR 0x22 # r)
         = json_escape c' @ (concat (map json_escape t') @ CHR 0x22 # r')"
      by simp
    from json_escape_prefix_code [OF this] have "c = c'" and
      "concat (map json_escape s) @ CHR 0x22 # r = concat (map json_escape t') @ CHR 0x22 # r'"
      by simp_all
    with Cons.IH [of t'] Cons show ?thesis by simp
  qed
qed

lemma json_string_delimited:
  "json_string s @ r = json_string s' @ r' \<Longrightarrow> s = s' \<and> r = r'"
proof -
  assume "json_string s @ r = json_string s' @ r'"
  then have "concat (map json_escape s) @ CHR 0x22 # r = concat (map json_escape s') @ CHR 0x22 # r'"
    by (simp add: json_string_def)
  then show ?thesis by (rule escaped_then_quote)
qed

lemma number_then_stop:
  assumes "\<not> num_char c" and "number_string i @ c # r = number_string j @ c # r'"
  shows "i = j \<and> r = r'"
proof -
  from run_then_stop [OF number_string_chars number_string_chars assms(1) assms(1) assms(2)]
  have "number_string i = number_string j" and "r = r'" by simp_all
  then show ?thesis by (simp add: number_string_inj)
qed

lemma not_num_char_comma: "\<not> num_char CHR '',''"
  by (simp add: num_char_def is_digit_def)

lemma not_num_char_brace: "\<not> num_char CHR ''}''"
  by (simp add: num_char_def is_digit_def)

lemma collection_key_eq_iff:
  "collection_key p l s b o' = collection_key p' l' s' b' o'' \<longleftrightarrow>
     p = p' \<and> l = l' \<and> s = s' \<and> b = b' \<and> o' = o''"
proof
  assume "collection_key p l s b o' = collection_key p' l' s' b' o''"
  then have 1: \<open>number_string p @ CHR '','' # (''"limit":'' @ number_string l @ CHR '','' # (''"search":''
       @ json_string s @ ('',"sortBy":'' @ json_string b @ ('',"order":'' @ number_string o' @ ''}''))))
     = number_string p' @ CHR '','' # (''"limit":'' @ number_string l' @ CHR '','' # (''"search":''
       @ json_string s' @ ('',"sortBy":'' @ json_string b' @ ('',"order":'' @ number_string o'' @ ''}''))))\<close>
    by (simp add: collection_key_def)
  from number_then_stop [OF not_num_char_comma 1] have p: "p = p'"
    and 2: \<open>number_string l @ CHR '','' # (''"search":''
       @ json_string s @ ('',"sortBy":'' @ json_string b @ ('',"order":'' @ number_string o' @ ''}'')))
     = number_string l' @ CHR '','' # (''"search":''
       @ json_string s' @ ('',"sortBy":'' @ json_string b' @ ('',"order":'' @ number_string o'' @ ''}'')))\<close>
    by simp_all
  from number_then_stop [OF not_num_char_comma 2] have l: "l = l'"
    and 3: \<open>json_string s @ ('',"sortBy":'' @ json_string b @ ('',"order":'' @ number_string o' @ ''}''))
     = json_string s' @ ('',"sortBy":'' @ json_string b' @ ('',"order":'' @ number_string o'' @ ''}''))\<close>
    by simp_all
  from json_string_delimited [OF 3] have s: "s = s'"
    and 4: \<open>json_string b @ ('',"order":'' @ number_string o' @ ''}'')
     = json_string b' @ ('',"order":'' @ number_string o'' @ ''}'')\<close>
    by simp_all
  from json_string_delimited [OF 4] have b: "b = b'"
    and 5: \<open>number_string o' @ CHR ''}'' # [] = number_string o'' @ CHR ''}'' # []\<close>
    by simp_all
  from number_then_stop [OF not_num_char_brace 5] have "o' = o''" by simp
  with p l s b show "p = p' \<and> l = l' \<and> s = s' \<and> b = b' \<and> o' = o''" by simp
next
  assume "p = p' \<and> l = l' \<and> s = s' \<and> b = b' \<and> o' = o''"
  then show "collection_key p l s b o' = collection_key p' l' s' b' o''" by simp
qed

lemma collection_key_not_users: "\<not> startsWith (collection_key p l s b o') ''/users''"
  by (simp add: collection_key_def startsWith_def)

lemma user_key_users: "startsWith (user_key i) ''/users''"
  by (simp add: user_key_def startsWith_def)

lemma user_key_inj: "user_key (Some i) = user_key (Some j) \<longleftrightarrow> i = j"
  by (auto simp: user_key_def nan_string_def dest: number_string_inj)

lemma user_key_not_collection_key: "user_key i \<noteq> collection_key p l s b o'"
  by (simp add: user_key_def collection_key_def)

text \<open>
  C4.  The key of a collection read is a function of the normalised parameters
  \<open>(page, limit, search, sortBy, order)\<close> that is injective: equal parameters
  give equal keys, and parameters that differ in one place give different keys.
  The key of a single-entity read is injective in the identifier, and no
  such key is the key of a collection read.
\<close>

theorem collection_key_injective:
  "(collection_key p l s b o' = collection_key p' l' s' b' o'' \<longleftrightarrow>
      p = p' \<and> l = l' \<and> s = s' \<and> b = b' \<and> o' = o'')
   \<and> (user_key (Some i) = user_key (Some j) \<longleftrightarrow> i = j)
   \<and> user_key x \<noteq> collection_key p l s b o'"
  using collection_key_eq_iff [of p l s b o' p' l' s' b' o''] user_key_inj [of i j]
    user_key_not_collection_key [of x p l s b o']
  by blast

subsection \<open>Routing and validation\<close>

text \<open>The store of the examples: it answers, and no call has been made.\<close>

lemma store_of_simps:
  "available (store_of docs)" "users (store_of docs) = docs" "calls (store_of docs) = []"
  "regex (store_of docs) = dot_engine" "sorted_by (store_of docs) = sort_on"
  by (simp_all add: store_of_def)

lemma startsWith_users_not_load: "startsWith u ''/users'' \<Longrightarrow> u \<noteq> ''/load''"
  by (auto simp: startsWith_def)

lemma userRouter_collection_read:
  "is_collection_read req \<Longrightarrow> userRouter req e cache db = handle_get_users req e cache db"
  by (auto simp: is_collection_read_def userRouter_def dest: startsWith_users_not_load)

lemma userRouter_delete:
  "is_delete req \<Longrightarrow> userRouter req e cache db = handle_delete req cache db"
  by (simp add: is_delete_def userRouter_def)

lemma is_user_path_not_users: "\<not> is_user_path ''/users''"
  by (simp add: is_user_path_def)

lemma userRouter_put:
  "is_put req \<Longrightarrow> userRouter req e cache db = handle_put_user req cache db"
  by (simp add: is_put_def userRouter_def startsWith_def)

lemma userRouter_unhandled:
  "\<not> handled req \<Longrightarrow> userRouter req e cache db = \<lparr>res = None, cache_out = cache, db_out = db\<rparr>"
  by (auto simp: handled_def userRouter_def)

lemma join_validSortFields: "join '', '' validSortFields = ''id, name, username, email''"
  by (simp add: validSortFields_def)

lemma handle_get_users_rejected:
  "parsedUrl req = Some ps \<Longrightarrow> rejected_count (page_of ps) \<or> rejected_count (limit_of ps) \<Longrightarrow>
   handle_get_users req e cache db
     = \<lparr>res = Some (respond_json 400 (ErrorBody ''Invalid page or limit value'')),
        cache_out = cache, db_out = db\<rparr>"
  by (auto simp: handle_get_users_def rejected_count_def Let_def split: option.splits)

lemma handle_get_users_sortBy:
  "parsedUrl req = Some ps \<Longrightarrow> \<not> rejected_count (page_of ps) \<Longrightarrow> \<not> rejected_count (limit_of ps) \<Longrightarrow>
   sortBy_of ps \<notin> set validSortFields \<Longrightarrow>
   handle_get_users req e cache db
     = \<lparr>res = Some (respond_json 400
          (ErrorBody ''Invalid sortBy field. Must be one of: id, name, username, email'')),
        cache_out = cache, db_out = db\<rparr>"
  by (auto simp: handle_get_users_def rejected_count_def join_validSortFields Let_def split: option.splits)

lemma handle_get_users_valid:
  "parsedUrl req = Some ps \<Longrightarrow> page_of ps = Some p \<Longrightarrow> limit_of ps = Some l \<Longrightarrow>
   1 \<le> p \<Longrightarrow> 1 \<le> l \<Longrightarrow> sortBy_of ps \<in> set validSortFields \<Longrightarrow>
   handle_get_users req e cache db
     = list_users p l (search_of ps) (sortBy_of ps) (order_of ps) e cache db"
  by (simp add: handle_get_users_def Let_def)

text \<open>
  C7 (as amended).  On a collection read whose URL parses: when \<^verbatim>\<open>parseInt\<close>
  (radix 10) of the page or of the limit is \<^verbatim>\<open>NaN\<close> or less than 1, the
  response is 400 with the error \<open>Invalid page or limit value\<close>; when both
  pass and \<open>sortBy\<close> is none of \<open>id\<close>, \<open>name\<close>, \<open>username\<close>, \<open>email\<close>, the
  response is 400 with an error that lists these four.  In both cases the
  store is handed back as it was (no call is added to its log) and so is the
  cache.
\<close>

theorem get_users_validation:
  assumes "is_collection_read req" and "parsedUrl req = Some ps"
  shows "(rejected_count (page_of ps) \<or> rejected_count (limit_of ps) \<longrightarrow>
            userRouter req e cache db
              = \<lparr>res = Some (respond_json 400 (ErrorBody ''Invalid page or limit value'')),
                 cache_out = cache, db_out = db\<rparr>)
         \<and> (\<not> rejected_count (page_of ps) \<and> \<not> rejected_count (limit_of ps)
              \<and> sortBy_of ps \<notin> set [''id'', ''name'', ''username'', ''email''] \<longrightarrow>
            userRouter req e cache db
              = \<lparr>res = Some (respond_json 400
                   (ErrorBody ''Invalid sortBy field. Must be one of: id, name, username, email'')),
                 cache_out = cache, db_out = db\<rparr>)"
  using assms
  by (auto simp: userRouter_collection_read handle_get_users_rejected
        intro!: handle_get_users_sortBy simp: validSortFields_def)

theorem get_users_validation_witness:
  "userRouter (request_of ''GET'' ''/users?page=0'' [(''page'', ''0'')]) (env_at 0) [] (store_of [])
     = \<lparr>res = Some (respond_json 400 (ErrorBody ''Invalid page or limit value'')),
        cache_out = [], db_out = store_of []\<rparr>
   \<and> userRouter (request_of ''GET'' ''/users?limit=abc'' [(''limit'', ''abc'')]) (env_at 0) [] (store_of [])
     = \<lparr>res = Some (respond_json 400 (ErrorBody ''Invalid page or limit value'')),
        cache_out = [], db_out = store_of []\<rparr>
   \<and> userRouter (request_of ''GET'' ''/users?sortBy=foo'' [(''sortBy'', ''foo'')]) (env_at 0) [] (store_of [])
     = \<lparr>res = Some (respond_json 400
          (ErrorBody ''Invalid sortBy field. Must be one of: id, name, username, email'')),
        cache_out = [], db_out = store_of []\<rparr>"
proof -
  have r1: "is_collection_read (request_of ''GET'' ''/users?page=0'' [(''page'', ''0'')])"
    and r3: "is_collection_read (request_of ''GET'' ''/users?limit=abc'' [(''limit'', ''abc'')])"
    and r2: "is_collection_read (request_of ''GET'' ''/users?sortBy=foo'' [(''sortBy'', ''foo'')])"
    by (simp_all add: is_collection_read_def request_of_def startsWith_def is_user_path_def)
  have p1: "parsedUrl (request_of ''GET'' ''/users?page=0'' [(''page'', ''0'')]) = Some [(''page'', ''0'')]"
    and p3: "parsedUrl (request_of ''GET'' ''/users?limit=abc'' [(''limit'', ''abc'')]) = Some [(''limit'', ''abc'')]"
    and p2: "parsedUrl (request_of ''GET'' ''/users?sortBy=foo'' [(''sortBy'', ''foo'')]) = Some [(''sortBy'', ''foo'')]"
    by (simp_all add: request_of_def)
  have a: "rejected_count (page_of [(''page'', ''0'')])"
    by code_simp
  have c: "rejected_count (limit_of [(''limit'', ''abc'')])"
    by code_simp
  have b: "\<not> rejected_count (page_of [(''sortBy'', ''foo'')])"
    "\<not> rejected_count (limit_of [(''sortBy'', ''foo'')])"
    "sortBy_of [(''sortBy'', ''foo'')] \<notin> set [''id'', ''name'', ''username'', ''email'']"
    by code_simp+
  from get_users_validation [OF r1 p1, of "env_at 0" "[]" "store_of []"] a
    get_users_validation [OF r3 p3, of "env_at 0" "[]" "store_of []"] c
    get_users_validation [OF r2 p2, of "env_at 0" "[]" "store_of []"] b
  show ?thesis by simp
qed

text \<open>
  \<^verbatim>\<open>parseInt\<close> reads the leading digits and drops the rest, it skips a
  no-break space as it skips a space, and a parameter that is empty counts as
  absent: \<^verbatim>\<open>page=5abc\<close> is page 5 and \<^verbatim>\<open>page=\<close> is page 1.
\<close>

lemma page_of_leading_digits:
  "page_of [(''page'', ''5abc'')] = Some 5" "page_of [(''page'', [])] = Some 1"
  "page_of [(''page'', [CHR 0xA0, CHR ''7''])] = Some 7"
  by code_simp+

lemma startsWith_iff: "startsWith s p \<longleftrightarrow> (\<exists>r. s = p @ r)"
proof
  assume "startsWith s p"
  then have "s = p @ drop (length p) s"
    unfolding startsWith_def by (metis append_take_drop_id)
  then show "\<exists>r. s = p @ r" ..
next
  assume "\<exists>r. s = p @ r"
  then show "startsWith s p" by (auto simp: startsWith_def)
qed

lemma startsWith_append: "startsWith s (p @ q) \<Longrightarrow> startsWith s p"
  by (auto simp: startsWith_iff)

lemma is_user_path_startsWith: "is_user_path u \<Longrightarrow> startsWith u ''/users''"
  using startsWith_append [of u "''/users''" "''/''"] by (simp add: is_user_path_def)

text \<open>
  C10.  A request that meets none of the five conditions of the router gets no
  response and leaves the cache and the store (its documents and its log of
  calls) as they were.  That is the case of every request whose method is none
  of GET, DELETE, PUT, and of a GET whose URL is neither \<^verbatim>\<open>/load\<close> nor starts
  with \<^verbatim>\<open>/users\<close>.
\<close>

theorem unhandled_request:
  "(\<not> handled req \<longrightarrow>
      userRouter req e cache db = \<lparr>res = None, cache_out = cache, db_out = db\<rparr>)
   \<and> (req_method req \<notin> set [''GET'', ''DELETE'', ''PUT''] \<longrightarrow> \<not> handled req)
   \<and> (req_method req = ''GET'' \<and> url req \<noteq> ''/load'' \<and> \<not> startsWith (url req) ''/users''
        \<longrightarrow> \<not> handled req)"
proof (intro conjI impI)
  assume "\<not> handled req"
  then show "userRouter req e cache db = \<lparr>res = None, cache_out = cache, db_out = db\<rparr>"
    by (rule userRouter_unhandled)
next
  assume "req_method req \<notin> set [''GET'', ''DELETE'', ''PUT'']"
  then show "\<not> handled req" by (simp add: handled_def)
next
  assume "req_method req = ''GET'' \<and> url req \<noteq> ''/load'' \<and> \<not> startsWith (url req) ''/users''"
  with is_user_path_startsWith [of "url req"] show "\<not> handled req" by (auto simp: handled_def)
qed

theorem unhandled_request_witness:
  "userRouter (request_of ''POST'' ''/users'' []) (env_at 0) [] (store_of [])
     = \<lparr>res = None, cache_out = [], db_out = store_of []\<rparr>
   \<and> userRouter (request_of ''GET'' ''/'' []) (env_at 0) [] (store_of [])
     = \<lparr>res = None, cache_out = [], db_out = store_of []\<rparr>"
proof -
  have a: "req_method (request_of ''POST'' ''/users'' []) \<notin> set [''GET'', ''DELETE'', ''PUT'']"
    by (simp add: request_of_def)
  have b: "req_method (request_of ''GET'' ''/'' []) = ''GET'' \<and> url (request_of ''GET'' ''/'' []) \<noteq> ''/load''
     \<and> \<not> startsWith (url (request_of ''GET'' ''/'' [])) ''/users''"
    by (simp add: request_of_def startsWith_def)
  from unhandled_request [of "request_of ''POST'' ''/users'' []" "env_at 0" "[]" "store_of []"] a
    unhandled_request [of "request_of ''GET'' ''/'' []" "env_at 0" "[]" "store_of []"] b
  show ?thesis by simp
qed

subsection \<open>Deleting a user\<close>

lemma remove_first_none: "\<not> list_ex P xs \<Longrightarrow> remove_first P xs = xs"
  by (induction xs) auto

lemma length_remove_first: "list_ex P xs \<Longrightarrow> Suc (length (remove_first P xs)) = length xs"
  by (induction xs) auto

lemma remove_first_split:
  "list_ex P xs \<Longrightarrow>
   \<exists>ys x zs. xs = ys @ x # zs \<and> P x \<and> \<not> list_ex P ys \<and> remove_first P xs = ys @ zs"
proof (induction xs)
  case Nil
  then show ?case by simp
next
  case (Cons a xs)
  show ?case
  proof (cases "P a")
    case True
    then have "a # xs = [] @ a # xs \<and> P a \<and> \<not> list_ex P [] \<and> remove_first P (a # xs) = [] @ xs"
      by simp
    then show ?thesis by blast
  next
    case False
    with Cons.prems have "list_ex P xs" by simp
    from Cons.IH [OF this] obtain ys x zs where
      "xs = ys @ x # zs" "P x" "\<not> list_ex P ys" "remove_first P xs = ys @ zs" by blast
    with False have "a # xs = (a # ys) @ x # zs \<and> P x \<and> \<not> list_ex P (a # ys)
        \<and> remove_first P (a # xs) = (a # ys) @ zs"
      by simp
    then show ?thesis by blast
  qed
qed

lemma handle_delete_invalid:
  "path_id (url req) = None \<Longrightarrow>
   handle_delete req cache db
     = \<lparr>res = Some (respond_json 400 (ErrorBody ''Invalid userId'')), cache_out = cache, db_out = db\<rparr>"
  by (simp add: handle_delete_def)

lemma handle_delete_missing:
  "path_id (url req) = Some n \<Longrightarrow> available db \<Longrightarrow> \<not> list_ex (has_id (Some n)) (users db) \<Longrightarrow>
   handle_delete req cache db
     = \<lparr>res = Some (respond_json 404 (ErrorBody ''User not found'')), cache_out = cache,
        db_out = logged db (DeleteOne n)\<rparr>"
  by (simp add: handle_delete_def deleteOne_def remove_first_none logged_def)

lemma handle_delete_found:
  "path_id (url req) = Some n \<Longrightarrow> available db \<Longrightarrow> list_ex (has_id (Some n)) (users db) \<Longrightarrow>
   handle_delete req cache db
     = \<lparr>res = Some (respond_json 200 (MessageBody ''User deleted successfully'')),
        cache_out = invalidateCacheByPrefix cache ''/users'',
        db_out = (logged db (DeleteOne n))\<lparr>users := remove_first (has_id (Some n)) (users db)\<rparr>\<rparr>"
  by (simp add: handle_delete_def deleteOne_def)

lemma handle_delete_down:
  "path_id (url req) = Some n \<Longrightarrow> \<not> available db \<Longrightarrow>
   handle_delete req cache db
     = \<lparr>res = Some (respond_json 500 (ErrorBody ''Failed to delete user'')), cache_out = cache,
        db_out = logged db (DeleteOne n)\<rparr>"
  by (simp add: handle_delete_def deleteOne_def)

text \<open>The filter \<^verbatim>\<open>{ id: n }\<close> and the lookup after an invalidation, written out.\<close>

lemma has_id_Some: "has_id (Some n) = (\<lambda>x. get_prop x ''id'' = Some (JNum n))"
  by (rule ext) (simp add: has_id_def)

lemma getCache_invalidate:
  "getCache (invalidateCacheByPrefix cache p) k t
     = (if startsWith k p then None else getCache cache k t)"
  by (simp add: getCache_def map_of_invalidate)

text \<open>
  C9 (as amended).  On \<^verbatim>\<open>DELETE /users/{id}\<close>, the id being what
  \<^verbatim>\<open>parseInt\<close> makes of the third path segment: when it is \<^verbatim>\<open>NaN\<close>, the
  response is 400 \<open>Invalid userId\<close> and the store and the cache are handed
  back as they were; when the store answers and holds no document with that
  id, the response is 404 \<open>User not found\<close>, the cache is unchanged and the
  store has its documents and one more call in its log; when it holds one, the
  response is 200 \<open>User deleted successfully\<close>, a key that starts with
  \<^verbatim>\<open>/users\<close> has no entry in the cache any more while every other key has
  the entry it had, and the first document with that id is gone from the
  store, the others staying in their order.
\<close>

theorem delete_user_cases:
  assumes "is_delete req"
  shows "(path_id (url req) = None \<longrightarrow>
            userRouter req e cache db
              = \<lparr>res = Some (respond_json 400 (ErrorBody ''Invalid userId'')),
                 cache_out = cache, db_out = db\<rparr>)
         \<and> (path_id (url req) = Some n \<and> available db
              \<and> \<not> list_ex (\<lambda>x. get_prop x ''id'' = Some (JNum n)) (users db) \<longrightarrow>
              userRouter req e cache db
                = \<lparr>res = Some (respond_json 404 (ErrorBody ''User not found'')),
                   cache_out = cache, db_out = db\<lparr>calls := calls db @ [DeleteOne n]\<rparr>\<rparr>)
         \<and> (path_id (url req) = Some n \<and> available db
              \<and> list_ex (\<lambda>x. get_prop x ''id'' = Some (JNum n)) (users db) \<longrightarrow>
              res (userRouter req e cache db)
                = Some (respond_json 200 (MessageBody ''User deleted successfully''))
              \<and> (\<forall>k t. getCache (cache_out (userRouter req e cache db)) k t
                         = (if startsWith k ''/users'' then None else getCache cache k t))
              \<and> (\<exists>ys x zs. users db = ys @ x # zs
                    \<and> get_prop x ''id'' = Some (JNum n)
                    \<and> \<not> list_ex (\<lambda>y. get_prop y ''id'' = Some (JNum n)) ys
                    \<and> users (db_out (userRouter req e cache db)) = ys @ zs)
              \<and> calls (db_out (userRouter req e cache db)) = calls db @ [DeleteOne n])"
proof (intro conjI impI)
  assume "path_id (url req) = None"
  then show "userRouter req e cache db
      = \<lparr>res = Some (respond_json 400 (ErrorBody ''Invalid userId'')),
         cache_out = cache, db_out = db\<rparr>"
    by (simp add: userRouter_delete [OF assms] handle_delete_invalid)
next
  assume "path_id (url req) = Some n \<and> available db
      \<and> \<not> list_ex (\<lambda>x. get_prop x ''id'' = Some (JNum n)) (users db)"
  then show "userRouter req e cache db
      = \<lparr>res = Some (respond_json 404 (ErrorBody ''User not found'')),
         cache_out = cache, db_out = db\<lparr>calls := calls db @ [DeleteOne n]\<rparr>\<rparr>"
    by (simp add: userRouter_delete [OF assms] handle_delete_missing has_id_Some logged_def)
next
  assume a: "path_id (url req) = Some n \<and> available db
      \<and> list_ex (\<lambda>x. get_prop x ''id'' = Some (JNum n)) (users db)"
  then have found: "userRouter req e cache db
      = \<lparr>res = Some (respond_json 200 (MessageBody ''User deleted successfully'')),
         cache_out = invalidateCacheByPrefix cache ''/users'',
         db_out = (logged db (DeleteOne n))
           \<lparr>users := remove_first (\<lambda>x. get_prop x ''id'' = Some (JNum n)) (users db)\<rparr>\<rparr>"
    using handle_delete_found [of req n db cache]
    by (simp add: userRouter_delete [OF assms] has_id_Some)
  show "res (userRouter req e cache db)
      = Some (respond_json 200 (MessageBody ''User deleted successfully''))"
    by (simp add: found)
  show "\<forall>k t. getCache (cache_out (userRouter req e cache db)) k t
                 = (if startsWith k ''/users'' then None else getCache cache k t)"
    by (simp add: found getCache_invalidate)
  from a remove_first_split [of "\<lambda>x. get_prop x ''id'' = Some (JNum n)" "users db"]
  show "\<exists>ys x zs. users db = ys @ x # zs
          \<and> get_prop x ''id'' = Some (JNum n)
          \<and> \<not> list_ex (\<lambda>y. get_prop y ''id'' = Some (JNum n)) ys
          \<and> users (db_out (userRouter req e cache db)) = ys @ zs"
    by (simp add: found)
  show "calls (db_out (userRouter req e cache db)) = calls db @ [DeleteOne n]"
    by (simp add: found logged_def)
qed

theorem delete_user_cases_witness:
  "userRouter (request_of ''DELETE'' ''/users/abc'' []) (env_at 1000)
       [(''/users/1'', \<lparr>data = UserData (user_doc 1 ''Alice'' ''alice'' ''alice@example.com'') False,
                        timestamp = 0\<rparr>)]
       (store_of [user_doc 1 ''Alice'' ''alice'' ''alice@example.com'',
                  user_doc 2 ''Bob'' ''bob'' ''bob@example.com''])
     = \<lparr>res = Some (respond_json 400 (ErrorBody ''Invalid userId'')),
        cache_out =
          [(''/users/1'', \<lparr>data = UserData (user_doc 1 ''Alice'' ''alice'' ''alice@example.com'') False,
                           timestamp = 0\<rparr>)],
        db_out = store_of [user_doc 1 ''Alice'' ''alice'' ''alice@example.com'',
                           user_doc 2 ''Bob'' ''bob'' ''bob@example.com'']\<rparr>
   \<and> userRouter (request_of ''DELETE'' ''/users/3'' []) (env_at 1000)
       [(''/users/1'', \<lparr>data = UserData (user_doc 1 ''Alice'' ''alice'' ''alice@example.com'') False,
                        timestamp = 0\<rparr>)]
       (store_of [user_doc 1 ''Alice'' ''alice'' ''alice@example.com'',
                  user_doc 2 ''Bob'' ''bob'' ''bob@example.com''])
     = \<lparr>res = Some (respond_json 404 (ErrorBody ''User not found'')),
        cache_out =
          [(''/users/1'', \<lparr>data = UserData (user_doc 1 ''Alice'' ''alice'' ''alice@example.com'') False,
                           timestamp = 0\<rparr>)],
        db_out = (store_of [user_doc 1 ''Alice'' ''alice'' ''alice@example.com'',
                            user_doc 2 ''Bob'' ''bob'' ''bob@example.com''])
                 \<lparr>calls := [DeleteOne 3]\<rparr>\<rparr>
   \<and> getCache
       [(''/users/1'', \<lparr>data = UserData (user_doc 1 ''Alice'' ''alice'' ''alice@example.com'') False,
                        timestamp = 0\<rparr>)]
       ''/users/1'' 1000
     = Some (UserData (user_doc 1 ''Alice'' ''alice'' ''alice@example.com'') False)
   \<and> res (userRouter (request_of ''DELETE'' ''/users/1'' []) (env_at 1000)
         [(''/users/1'', \<lparr>data = UserData (user_doc 1 ''Alice'' ''alice'' ''alice@example.com'') False,
                          timestamp = 0\<rparr>)]
         (store_of [user_doc 1 ''Alice'' ''alice'' ''alice@example.com'',
                    user_doc 2 ''Bob'' ''bob'' ''bob@example.com'']))
     = Some (respond_json 200 (MessageBody ''User deleted successfully''))
   \<and> getCache (cache_out (userRouter (request_of ''DELETE'' ''/users/1'' []) (env_at 1000)
         [(''/users/1'', \<lparr>data = UserData (user_doc 1 ''Alice'' ''alice'' ''alice@example.com'') False,
                          timestamp = 0\<rparr>)]
         (store_of [user_doc 1 ''Alice'' ''alice'' ''alice@example.com'',
                    user_doc 2 ''Bob'' ''bob'' ''bob@example.com''])))
       ''/users/1'' 1000
     = None
   \<and> users (db_out (userRouter (request_of ''DELETE'' ''/users/1'' []) (env_at 1000)
         [(''/users/1'', \<lparr>data = UserData (user_doc 1 ''Alice'' ''alice'' ''alice@example.com'') False,
                          timestamp = 0\<rparr>)]
         (store_of [user_doc 1 ''Alice'' ''alice'' ''alice@example.com'',
                    user_doc 2 ''Bob'' ''bob'' ''bob@example.com''])))
     = [user_doc 2 ''Bob'' ''bob'' ''bob@example.com'']
   \<and> calls (db_out (userRouter (request_of ''DELETE'' ''/users/1'' []) (env_at 1000)
         [(''/users/1'', \<lparr>data = UserData (user_doc 1 ''Alice'' ''alice'' ''alice@example.com'') False,
                          timestamp = 0\<rparr>)]
         (store_of [user_doc 1 ''Alice'' ''alice'' ''alice@example.com'',
                    user_doc 2 ''Bob'' ''bob'' ''bob@example.com''])))
     = [DeleteOne 1]"
proof -
  let ?alice = "user_doc 1 ''Alice'' ''alice'' ''alice@example.com''"
  let ?bob = "user_doc 2 ''Bob'' ''bob'' ''bob@example.com''"
  let ?db = "store_of [?alice, ?bob]"
  let ?cache = "[(''/users/1'', \<lparr>data = UserData ?alice False, timestamp = 0\<rparr>)]"
  let ?has = "\<lambda>n x. get_prop x ''id'' = Some (JNum n)"
  let ?o = "userRouter (request_of ''DELETE'' ''/users/1'' []) (env_at 1000) ?cache ?db"
  have d: "is_delete (request_of ''DELETE'' u [])"
    if "startsWith u ''/users/''" for u
    using that by (simp add: is_delete_def request_of_def)
  have u: "url (request_of ''DELETE'' u []) = u" for u
    by (simp add: request_of_def)
  have s: "startsWith ''/users/abc'' ''/users/''" "startsWith ''/users/3'' ''/users/''"
    "startsWith ''/users/1'' ''/users/''" "startsWith ''/users/1'' ''/users''"
    by (simp_all add: startsWith_def)
  have p: "path_id ''/users/abc'' = None" "path_id ''/users/3'' = Some 3"
    "path_id ''/users/1'' = Some 1"
    by code_simp+
  have ids: "get_prop ?alice ''id'' = Some (JNum 1)" "get_prop ?bob ''id'' = Some (JNum 2)"
    by (simp_all add: user_doc_def)
  have a: "\<not> list_ex (?has 3) (users ?db)" "list_ex (?has 1) (users ?db)"
    by (simp_all add: store_of_simps ids)
  from delete_user_cases [OF d [OF s(1)], where e = "env_at 1000" and cache = ?cache and db = ?db]
  have c1: "userRouter (request_of ''DELETE'' ''/users/abc'' []) (env_at 1000) ?cache ?db
      = \<lparr>res = Some (respond_json 400 (ErrorBody ''Invalid userId'')),
         cache_out = ?cache, db_out = ?db\<rparr>"
    unfolding u using p(1) by simp
  from delete_user_cases [OF d [OF s(2)], where e = "env_at 1000" and cache = ?cache and db = ?db
      and n = 3]
  have c2: "userRouter (request_of ''DELETE'' ''/users/3'' []) (env_at 1000) ?cache ?db
      = \<lparr>res = Some (respond_json 404 (ErrorBody ''User not found'')),
         cache_out = ?cache, db_out = ?db\<lparr>calls := [DeleteOne 3]\<rparr>\<rparr>"
    unfolding u using p(2) a(1) by (simp add: store_of_simps)
  from delete_user_cases [OF d [OF s(3)], where e = "env_at 1000" and cache = ?cache and db = ?db
      and n = 1]
  have c3: "res ?o = Some (respond_json 200 (MessageBody ''User deleted successfully''))
      \<and> (\<forall>k t. getCache (cache_out ?o) k t
                 = (if startsWith k ''/users'' then None else getCache ?cache k t))
      \<and> (\<exists>ys x zs. users ?db = ys @ x # zs \<and> ?has 1 x \<and> \<not> list_ex (?has 1) ys
            \<and> users (db_out ?o) = ys @ zs)
      \<and> calls (db_out ?o) = calls ?db @ [DeleteOne 1]"
    unfolding u using p(3) a(2) store_of_simps(1) [of "[?alice, ?bob]"] by blast
  then obtain ys x zs where split: "[?alice, ?bob] = ys @ x # zs" "\<not> list_ex (?has 1) ys"
    "users (db_out ?o) = ys @ zs"
    unfolding store_of_simps by blast
  have "ys = []"
  proof (cases ys)
    case Nil
    then show ?thesis .
  next
    case (Cons y ys')
    with split(1) have "y = ?alice" by simp
    with Cons split(2) ids(1) show ?thesis by simp
  qed
  with split(1) split(3) have gone: "users (db_out ?o) = [?bob]"
    by simp
  from c3 have away: "getCache (cache_out ?o) ''/users/1'' 1000 = None"
    using s(4) by simp
  have before: "getCache ?cache ''/users/1'' 1000 = Some (UserData ?alice False)"
    by (simp add: getCache_def CACHE_TTL_ms)
  from c3 have log: "calls (db_out ?o) = [DeleteOne 1]"
    by (simp add: store_of_simps)
  from c1 c2 before c3 away gone log show ?thesis
    by simp
qed

text \<open>
  A segment that starts with digits is an id, whatever follows them:
  \<^verbatim>\<open>DELETE /users/1abc\<close> deletes user 1, and \<^verbatim>\<open>/users/0x10\<close> addresses
  user 16.
\<close>

theorem delete_counterexample:
  "path_id ''/users/1abc'' = Some 1
   \<and> res (userRouter (request_of ''DELETE'' ''/users/1abc'' []) (env_at 0) []
         (store_of [user_doc 1 ''Alice'' ''alice'' ''alice@example.com'']))
     = Some (respond_json 200 (MessageBody ''User deleted successfully''))
   \<and> users (db_out (userRouter (request_of ''DELETE'' ''/users/1abc'' []) (env_at 0) []
         (store_of [user_doc 1 ''Alice'' ''alice'' ''alice@example.com''])))
     = []
   \<and> path_id ''/users/0x10'' = Some 16"
proof -
  let ?alice = "user_doc 1 ''Alice'' ''alice'' ''alice@example.com''"
  let ?req = "request_of ''DELETE'' ''/users/1abc'' []"
  let ?db = "store_of [?alice]"
  have d: "is_delete ?req"
    by (simp add: is_delete_def request_of_def startsWith_def)
  have p: "path_id ''/users/1abc'' = Some 1" "path_id ''/users/0x10'' = Some 16"
    by code_simp+
  then have q: "path_id (url ?req) = Some 1"
    by (simp add: request_of_def)
  have a: "list_ex (has_id (Some 1)) (users ?db)"
    "remove_first (has_id (Some 1)) (users ?db) = []"
    by (simp_all add: store_of_simps has_id_def user_doc_def)
  have "userRouter ?req (env_at 0) [] ?db = handle_delete ?req [] ?db"
    by (rule userRouter_delete [OF d])
  also note handle_delete_found [OF q store_of_simps(1) a(1), of "[]"]
  finally have "res (userRouter ?req (env_at 0) [] ?db)
        = Some (respond_json 200 (MessageBody ''User deleted successfully''))"
    "users (db_out (userRouter ?req (env_at 0) [] ?db)) = []"
    by (simp_all add: a(2))
  with p show ?thesis
    by simp
qed

text \<open>
  The scenario of the specification: user 1 is read, deleted and read again,
  all within the time to live.  The first read is answered from the store and
  kept in the cache, and the read after the delete is answered 404: the entry
  is gone from the cache and the document from the store.
\<close>

lemma read_delete_read:
  "res (userRouter (request_of ''GET'' ''/users/1'' []) (env_at 0) []
         (store_of [user_doc 1 ''Alice'' ''alice'' ''alice@example.com'']))
     = Some (respond_json 200 (Data
         (UserData (user_doc 1 ''Alice'' ''alice'' ''alice@example.com'') False)))
   \<and> res (userRouter (request_of ''GET'' ''/users/1'' []) (env_at 2000)
         (fst (run [(request_of ''GET'' ''/users/1'' [], env_at 0),
                    (request_of ''DELETE'' ''/users/1'' [], env_at 1000)]
                   [] (store_of [user_doc 1 ''Alice'' ''alice'' ''alice@example.com''])))
         (snd (run [(request_of ''GET'' ''/users/1'' [], env_at 0),
                    (request_of ''DELETE'' ''/users/1'' [], env_at 1000)]
                   [] (store_of [user_doc 1 ''Alice'' ''alice'' ''alice@example.com'']))))
     = Some (respond_json 404 (ErrorBody ''User not found''))"
proof -
  let ?alice = "user_doc 1 ''Alice'' ''alice'' ''alice@example.com''"
  let ?get = "request_of ''GET'' ''/users/1'' []"
  let ?del = "request_of ''DELETE'' ''/users/1'' []"
  let ?db = "store_of [?alice]"
  let ?o1 = "userRouter ?get (env_at 0) [] ?db"
  let ?o2 = "userRouter ?del (env_at 1000) (cache_out ?o1) (db_out ?o1)"
  have up: "is_user_path ''/users/1''"
    by code_simp
  have p: "path_id ''/users/1'' = Some 1"
    by code_simp
  have k: "user_key (Some 1) = ''/users/1''"
    by code_simp
  have route: "userRouter ?get e cache db = handle_get_user ?get e cache db" for e cache db
    using up by (simp add: userRouter_def request_of_def startsWith_def)
  have o1: "res ?o1 = Some (respond_json 200 (Data (UserData ?alice False)))"
    "users (db_out ?o1) = [?alice]" "available (db_out ?o1)"
    unfolding route
    by (simp_all add: handle_get_user_def Let_def request_of_def p k getCache_empty findOne_def
          store_of_simps has_id_def user_doc_def logged_def)
  have d: "is_delete ?del"
    by (simp add: is_delete_def request_of_def startsWith_def)
  have q: "path_id (url ?del) = Some 1"
    using p by (simp add: request_of_def)
  have a: "list_ex (has_id (Some 1)) (users (db_out ?o1))"
    "remove_first (has_id (Some 1)) (users (db_out ?o1)) = []"
    unfolding o1(2) by (simp_all add: has_id_def user_doc_def)
  have "?o2 = handle_delete ?del (cache_out ?o1) (db_out ?o1)"
    by (rule userRouter_delete [OF d])
  also note handle_delete_found [OF q o1(3) a(1), of "cache_out ?o1"]
  finally have o2: "cache_out ?o2 = invalidateCacheByPrefix (cache_out ?o1) ''/users''"
    "users (db_out ?o2) = []" "available (db_out ?o2)"
    using o1(3) by (simp_all add: a(2) logged_def)
  have miss: "getCache (cache_out ?o2) ''/users/1'' t = None" for t
    unfolding o2(1) by (simp add: getCache_invalidate startsWith_def)
  have nf: "res (handle_get_user ?get e cache db)
      = Some (respond_json 404 (ErrorBody ''User not found''))"
    if "getCache cache ''/users/1'' (now e) = None" "available db" "users db = []" for e cache db
    using that by (simp add: handle_get_user_def Let_def request_of_def p k findOne_def)
  have "userRouter ?get (env_at 2000) (cache_out ?o2) (db_out ?o2)
      = handle_get_user ?get (env_at 2000) (cache_out ?o2) (db_out ?o2)"
    by (rule route)
  with nf [OF miss o2(3) o2(2)]
  have "res (userRouter ?get (env_at 2000) (cache_out ?o2) (db_out ?o2))
      = Some (respond_json 404 (ErrorBody ''User not found''))"
    by (simp only:)
  with o1(1) show ?thesis
    by simp
qed

subsection \<open>Adding a user\<close>

lemma find_None_list_ex: "find P xs = None \<longleftrightarrow> \<not> list_ex P xs"
  by (auto simp: find_None_iff list_ex_iff)

lemma handle_put_unparsable:
  "parsed_body req = None \<Longrightarrow>
   handle_put_user req cache db
     = \<lparr>res = Some (respond_json 500 (ErrorBody ''Failed to add user'')),
        cache_out = cache, db_out = db\<rparr>"
  by (simp add: handle_put_user_def)

lemma handle_put_invalid:
  "parsed_body req = Some v \<Longrightarrow> numeric_id v = None \<Longrightarrow>
   handle_put_user req cache db
     = \<lparr>res = Some (respond_json 400 (ErrorBody ''Invalid user data'')),
        cache_out = cache, db_out = db\<rparr>"
  by (simp add: handle_put_user_def)

lemma handle_put_exists:
  assumes "parsed_body req = Some v" "numeric_id v = Some n" "available db"
    "list_ex (has_id (Some n)) (users db)"
  shows "handle_put_user req cache db
     = \<lparr>res = Some (respond_json 400 (ErrorBody ''User already exists.'')),
        cache_out = cache, db_out = logged db (FindOne (Some n))\<rparr>"
proof -
  from assms(4) obtain u where "find (has_id (Some n)) (users db) = Some u"
    using find_None_list_ex [of "has_id (Some n)" "users db"] by (cases "find (has_id (Some n)) (users db)") auto
  with assms(1-3) show ?thesis
    by (simp add: handle_put_user_def findOne_def)
qed

lemma handle_put_created:
  assumes "parsed_body req = Some v" "numeric_id v = Some n" "available db"
    "\<not> list_ex (has_id (Some n)) (users db)"
  shows "handle_put_user req cache db
     = \<lparr>res = Some \<lparr>status = 201,
                   headers = [(''Content-Type'', ''application/json''),
                              (''Location'', ''/users/'' @ number_string n)],
                   content = Document v\<rparr>,
        cache_out = invalidateCacheByPrefix cache ''/users'',
        db_out = (logged (logged db (FindOne (Some n))) (InsertOne v))\<lparr>users := users db @ [v]\<rparr>\<rparr>"
proof -
  from assms(4) have "find (has_id (Some n)) (users db) = None"
    by (simp add: find_None_list_ex)
  with assms(1-3) show ?thesis
    by (simp add: handle_put_user_def findOne_def insertOne_def logged_def)
qed

lemma is_put_put_of: "is_put (put_of b)"
  by (simp add: is_put_def put_of_def)

text \<open>
  The cases of \<^verbatim>\<open>PUT /users\<close> for a body that parses: without a numeric
  \<^verbatim>\<open>id\<close> the response is 400 \<open>Invalid user data\<close>; with the id of a stored
  document it is 400 \<open>User already exists.\<close> and nothing is inserted; otherwise
  the document is appended, the cache is invalidated under \<^verbatim>\<open>/users\<close> and the
  response is 201 with the \<^verbatim>\<open>Location\<close> header and the document.
\<close>

lemma put_user_cases:
  assumes "is_put req" and "parsed_body req = Some v"
  shows "(numeric_id v = None \<longrightarrow>
            userRouter req e cache db
              = \<lparr>res = Some (respond_json 400 (ErrorBody ''Invalid user data'')),
                 cache_out = cache, db_out = db\<rparr>)
         \<and> (numeric_id v = Some n \<and> available db \<and> list_ex (has_id (Some n)) (users db) \<longrightarrow>
              res (userRouter req e cache db)
                = Some (respond_json 400 (ErrorBody ''User already exists.''))
              \<and> cache_out (userRouter req e cache db) = cache
              \<and> users (db_out (userRouter req e cache db)) = users db)
         \<and> (numeric_id v = Some n \<and> available db \<and> \<not> list_ex (has_id (Some n)) (users db) \<longrightarrow>
              res (userRouter req e cache db)
                = Some \<lparr>status = 201,
                        headers = [(''Content-Type'', ''application/json''),
                                   (''Location'', ''/users/'' @ number_string n)],
                        content = Document v\<rparr>
              \<and> cache_out (userRouter req e cache db) = invalidateCacheByPrefix cache ''/users''
              \<and> users (db_out (userRouter req e cache db)) = users db @ [v])"
  using assms
  by (auto simp: userRouter_put handle_put_invalid handle_put_exists handle_put_created logged_def)

text \<open>
  C6.  A PUT whose body does not parse (\<^verbatim>\<open>JSON.parse\<close> throws inside the
  \<^verbatim>\<open>try\<close>) is answered by the \<^verbatim>\<open>catch\<close>: status 500 with the error
  \<open>Failed to add user\<close>, not 400 \<open>Invalid user data\<close>.
\<close>

theorem put_unparsable_body:
  "userRouter (put_of None) e cache db
     = \<lparr>res = Some (respond_json 500 (ErrorBody ''Failed to add user'')),
        cache_out = cache, db_out = db\<rparr>"
proof -
  have "parsed_body (put_of None) = None" by (simp add: put_of_def)
  then show ?thesis
    by (simp add: userRouter_put [OF is_put_put_of] handle_put_unparsable)
qed

subsection \<open>Reading the collection\<close>

lemma ceil_div_int: "ceil_div a b = - ((- a) div b)"
  unfolding ceil_div_def by (rule ceiling_divide_eq_div)

lemma ceil_div_bounds:
  assumes "1 \<le> b"
  shows "(ceil_div a b - 1) * b < a \<and> a \<le> ceil_div a b * b"
proof -
  have b: "0 < real_of_int b" using assms by simp
  let ?c = "ceil_div a b"
  have "real_of_int ?c - 1 < real_of_int a / real_of_int b" "real_of_int a / real_of_int b \<le> real_of_int ?c"
    unfolding ceil_div_def by linarith+
  with b have "(real_of_int ?c - 1) * real_of_int b < real_of_int a" "real_of_int a \<le> real_of_int ?c * real_of_int b"
    by (simp_all add: pos_less_divide_eq pos_divide_le_eq)
  then have "real_of_int ((?c - 1) * b) < real_of_int a" "real_of_int a \<le> real_of_int (?c * b)"
    by simp_all
  then show ?thesis by linarith
qed

lemma query_pred_users_query_empty: "query_pred rx (users_query []) = Some (\<lambda>doc. True)"
  by (simp add: users_query_def)

lemma query_pred_users_query:
  "s \<noteq> [] \<Longrightarrow> rx s ''i'' = Some m \<Longrightarrow>
   query_pred rx (users_query s)
     = Some (\<lambda>doc. prop_matches m ''name'' doc \<or> prop_matches m ''username'' doc
                    \<or> prop_matches m ''email'' doc)"
  by (simp add: users_query_def clause_pred_def)

lemma query_pred_users_query_rejected:
  "s \<noteq> [] \<Longrightarrow> rx s ''i'' = None \<Longrightarrow> query_pred rx (users_query s) = None"
  by (simp add: users_query_def clause_pred_def)

lemma list_users_hit:
  "getCache cache (collection_key p l s b ord) (now e) = Some d \<Longrightarrow>
   list_users p l s b ord e cache db
     = \<lparr>res = Some (respond_json 200 (Data (as_cached d))), cache_out = cache, db_out = db\<rparr>"
  by (simp add: list_users_def)

lemma list_users_miss:
  assumes "getCache cache (collection_key p l s b ord) (now e) = None"
    and "available db" and "query_pred (regex db) (users_query s) = Some matches"
  shows "list_users p l s b ord e cache db
     = \<lparr>res = Some (respond_json 200 (Data
          (UsersData p l (int (length (filter matches (users db))))
             (ceil_div (int (length (filter matches (users db)))) l)
             (take (nat l) (drop (nat (to_double (to_double (p - 1) * l)))
                (sorted_by db b ord (filter matches (users db)))))
             False))),
        cache_out = setCache cache (collection_key p l s b ord)
          (UsersData p l (int (length (filter matches (users db))))
             (ceil_div (int (length (filter matches (users db)))) l)
             (take (nat l) (drop (nat (to_double (to_double (p - 1) * l)))
                (sorted_by db b ord (filter matches (users db)))))
             False) (later e),
        db_out = logged (logged db (Find (users_query s) b ord (to_double (to_double (p - 1) * l)) l))
                   (CountDocuments (users_query s))\<rparr>"
  using assms
  by (simp add: list_users_def find_page_def countDocuments_def logged_def Let_def)

lemma list_users_down:
  assumes "getCache cache (collection_key p l s b ord) (now e) = None"
    and "\<not> available db \<or> query_pred (regex db) (users_query s) = None"
  shows "res (list_users p l s b ord e cache db)
           = Some (respond_json 500 (ErrorBody ''Failed to fetch users''))
         \<and> cache_out (list_users p l s b ord e cache db) = cache"
  using assms
  by (auto simp: list_users_def find_page_def countDocuments_def logged_def Let_def)

subsection \<open>What the cache holds\<close>

lemma cache_ok_setCache:
  "cache_ok cache \<Longrightarrow> entry_ok k d \<Longrightarrow> cache_ok (setCache cache k d t)"
proof -
  assume ok: "cache_ok cache" and e: "entry_ok k d"
  have "set (AList.update k v al) \<subseteq> insert (k, v) (set al)" for v :: "payload cache_entry" and al
    by (induction al) auto
  with ok e show ?thesis
    by (fastforce simp: cache_ok_def setCache_def list_all_iff)
qed

lemma cache_ok_invalidate: "cache_ok cache \<Longrightarrow> cache_ok (invalidateCacheByPrefix cache p)"
  by (simp add: cache_ok_def invalidate_filter list_all_iff)

lemma cache_ok_getCache:
  "cache_ok cache \<Longrightarrow> getCache cache k t = Some d \<Longrightarrow> entry_ok k d"
proof -
  assume ok: "cache_ok cache" and g: "getCache cache k t = Some d"
  from g obtain en where en: "map_of cache k = Some en" "data en = d"
    by (auto simp: getCache_def split: option.splits if_splits)
  then have "(k, en) \<in> set cache" by (simp add: map_of_SomeD)
  with ok en show ?thesis by (auto simp: cache_ok_def list_all_iff)
qed

lemma cache_ok_handle_load: "cache_ok cache \<Longrightarrow> cache_ok (cache_out (handle_load e cache db))"
  by (auto simp: handle_load_def cache_ok_invalidate split: prod.splits sum.splits)

lemma cache_ok_handle_delete: "cache_ok cache \<Longrightarrow> cache_ok (cache_out (handle_delete req cache db))"
  by (auto simp: handle_delete_def cache_ok_invalidate split: prod.splits sum.splits option.splits)

lemma cache_ok_handle_put: "cache_ok cache \<Longrightarrow> cache_ok (cache_out (handle_put_user req cache db))"
  by (auto simp: handle_put_user_def cache_ok_invalidate split: prod.splits sum.splits option.splits)

lemma cache_ok_handle_get_user:
  "cache_ok cache \<Longrightarrow> cache_ok (cache_out (handle_get_user req e cache db))"
  by (auto simp: handle_get_user_def Let_def entry_ok_def intro!: cache_ok_setCache
        split: prod.splits sum.splits option.splits)

lemma entry_ok_page:
  "entry_ok (collection_key p l s b ord) (UsersData p l t (ceil_div t l) us False)"
  unfolding entry_ok_def by auto

lemma cache_ok_list_users:
  "cache_ok cache \<Longrightarrow> cache_ok (cache_out (list_users p l s b ord e cache db))"
  by (auto simp: list_users_def Let_def entry_ok_page intro!: cache_ok_setCache
        split: prod.splits sum.splits option.splits)

lemma cache_ok_handle_get_users:
  "cache_ok cache \<Longrightarrow> cache_ok (cache_out (handle_get_users req e cache db))"
  by (auto simp: handle_get_users_def Let_def cache_ok_list_users split: option.splits)

lemma cache_ok_userRouter:
  "cache_ok cache \<Longrightarrow> cache_ok (cache_out (userRouter req e cache db))"
  by (simp add: userRouter_def cache_ok_handle_load cache_ok_handle_delete cache_ok_handle_put
        cache_ok_handle_get_user cache_ok_handle_get_users)

text \<open>Every cache the router builds, from the empty one, request after request.\<close>

lemma cache_ok_run: "cache_ok cache \<Longrightarrow> cache_ok (fst (run steps cache db))"
  by (induction steps cache db rule: run.induct) (simp_all add: cache_ok_userRouter)

lemma cache_ok_empty: "cache_ok []"
  by (simp add: cache_ok_def)

lemma cached_page:
  assumes "cache_ok cache" and "getCache cache (collection_key p l s b ord) t = Some d"
  shows "\<exists>total us. d = UsersData p l total (ceil_div total l) us False"
proof -
  from cache_ok_getCache [OF assms] have ok: "entry_ok (collection_key p l s b ord) d" .
  show ?thesis
  proof (cases d)
    case (UserData u c)
    with ok obtain i where "collection_key p l s b ord = user_key i"
      by (auto simp: entry_ok_def)
    with user_key_not_collection_key [of i p l s b ord] show ?thesis by simp
  next
    case (UsersData p' l' t' tp us c)
    with ok obtain s' b' ord' where
      "collection_key p l s b ord = collection_key p' l' s' b' ord'" "tp = ceil_div t' l'" "c = False"
      by (auto simp: entry_ok_def)
    with UsersData show ?thesis by (simp add: collection_key_eq_iff)
  qed
qed

subsection \<open>Requests of the examples\<close>

lemma parsedUrl_request_of: "parsedUrl (request_of m u ps) = Some ps"
  by (simp add: request_of_def)

lemma plain_request:
  "page_of [] = Some 1" "limit_of [] = Some 5" "sortBy_of [] = ''id''" "order_of [] = 1"
  "search_of [] = []"
  by (simp_all add: page_of_def limit_of_def sortBy_of_def order_of_def search_of_def param_def
        or_default_def parseInt_def is_space_def radix_digit_def digit_of_def digits_value_def
        to_double_small)

lemma users_read: "is_collection_read (request_of ''GET'' ''/users'' ps)"
  by (simp add: is_collection_read_def request_of_def startsWith_def is_user_path_def)

lemma default_page: "page_of [(''search'', x)] = Some 1" "limit_of [(''search'', x)] = Some 5"
  "sortBy_of [(''search'', x)] = ''id''" "order_of [(''search'', x)] = 1"
  "search_of [(''search'', x)] = toLowerCase x"
  by (simp_all add: page_of_def limit_of_def sortBy_of_def order_of_def search_of_def param_def
        or_default_def parseInt_def is_space_def radix_digit_def digit_of_def digits_value_def
        to_double_small)

lemma search_request_read:
  "is_collection_read (request_of ''GET'' (''/users?search='' @ x) ps)"
  by (simp add: is_collection_read_def request_of_def startsWith_def is_user_path_def)

lemma page_request_read:
  "is_collection_read (request_of ''GET'' (''/users?page='' @ x) ps)"
  by (simp add: is_collection_read_def request_of_def startsWith_def is_user_path_def)

text \<open>A collection read that passes both validations goes on with its normalised parameters.\<close>

lemma collection_read_valid:
  assumes "is_collection_read req" and "parsedUrl req = Some ps"
    and "page_of ps = Some page" and "limit_of ps = Some limit"
    and "1 \<le> page" and "1 \<le> limit"
    and "sortBy_of ps \<in> set validSortFields"
  shows "userRouter req e cache db
           = list_users page limit (search_of ps) (sortBy_of ps) (order_of ps) e cache db"
  using assms by (simp add: userRouter_collection_read handle_get_users_valid)

lemma id_valid: "''id'' \<in> set validSortFields"
  by (simp add: validSortFields_def)

subsection \<open>Page and limit with trailing characters\<close>

text \<open>
  A page or a limit that is not a number all through is not rejected when it
  starts with digits: \<^verbatim>\<open>page=5abc&limit=2x\<close> is answered 200 as page 5 with
  limit 2, after the store was asked for the page and for the count.  And the
  check of \<open>sortBy\<close> comes second: with \<^verbatim>\<open>page=0&sortBy=foo\<close> the error is
  the one of the page.
\<close>

theorem validation_counterexample:
  "page_of [(''page'', ''5abc''), (''limit'', ''2x'')] = Some 5
   \<and> limit_of [(''page'', ''5abc''), (''limit'', ''2x'')] = Some 2
   \<and> res (userRouter
         (request_of ''GET'' ''/users?page=5abc&limit=2x'' [(''page'', ''5abc''), (''limit'', ''2x'')])
         (env_at 0) [] (store_of []))
     = Some (respond_json 200 (Data (UsersData 5 2 0 0 [] False)))
   \<and> calls (db_out (userRouter
         (request_of ''GET'' ''/users?page=5abc&limit=2x'' [(''page'', ''5abc''), (''limit'', ''2x'')])
         (env_at 0) [] (store_of [])))
     = [Find MatchAll ''id'' 1 8 2, CountDocuments MatchAll]
   \<and> sortBy_of [(''page'', ''0''), (''sortBy'', ''foo'')] = ''foo''
   \<and> res (userRouter
         (request_of ''GET'' ''/users?page=0&sortBy=foo'' [(''page'', ''0''), (''sortBy'', ''foo'')])
         (env_at 0) [] (store_of []))
     = Some (respond_json 400 (ErrorBody ''Invalid page or limit value''))"
proof -
  let ?ps = "[(''page'', ''5abc''), (''limit'', ''2x'')]"
  let ?req = "request_of ''GET'' ''/users?page=5abc&limit=2x'' ?ps"
  have r: "is_collection_read ?req"
    by (rule page_request_read [of "''5abc&limit=2x''" ?ps, simplified])
  have p: "page_of ?ps = Some 5" "limit_of ?ps = Some 2"
    by code_simp+
  have n: "search_of ?ps = []" "sortBy_of ?ps = ''id''" "order_of ?ps = 1"
    by (simp_all add: search_of_def sortBy_of_def order_of_def param_def or_default_def)
  have "userRouter ?req (env_at 0) [] (store_of [])
      = list_users 5 2 [] ''id'' 1 (env_at 0) [] (store_of [])"
    using collection_read_valid [OF r parsedUrl_request_of p, of "env_at 0" "[]" "store_of []"]
    by (simp add: n id_valid)
  also note list_users_miss [OF getCache_empty store_of_simps(1) query_pred_users_query_empty]
  finally have a: "res (userRouter ?req (env_at 0) [] (store_of []))
        = Some (respond_json 200 (Data (UsersData 5 2 0 0 [] False)))"
    "calls (db_out (userRouter ?req (env_at 0) [] (store_of [])))
        = [Find MatchAll ''id'' 1 8 2, CountDocuments MatchAll]"
    by (simp_all add: store_of_simps sort_on_def ceil_div_int logged_def users_query_def
          to_double_small)
  let ?qs = "[(''page'', ''0''), (''sortBy'', ''foo'')]"
  let ?bad = "request_of ''GET'' ''/users?page=0&sortBy=foo'' ?qs"
  have b: "is_collection_read ?bad"
    by (rule page_request_read [of "''0&sortBy=foo''" ?qs, simplified])
  have c: "rejected_count (page_of ?qs)" "sortBy_of ?qs = ''foo''"
    by code_simp+
  have "userRouter ?bad (env_at 0) [] (store_of [])
      = handle_get_users ?bad (env_at 0) [] (store_of [])"
    by (rule userRouter_collection_read [OF b])
  also note handle_get_users_rejected [OF parsedUrl_request_of disjI1 [OF c(1)]]
  finally have d: "res (userRouter ?bad (env_at 0) [] (store_of []))
      = Some (respond_json 400 (ErrorBody ''Invalid page or limit value''))"
    by simp
  from p a c(2) d show ?thesis
    by simp
qed

subsection \<open>Searching\<close>

text \<open>
  C8.  The search string goes to the store as a pattern, with the characters
  that are special in a pattern left as they are.  The search \<^verbatim>\<open>a.c\<close> selects
  the user named \<^verbatim>\<open>abc\<close>, in none of whose properties \<^verbatim>\<open>a.c\<close> occurs as a
  literal substring; and the search \<^verbatim>\<open>(\<close>, which is no pattern, is answered 500
  on a store whose one user has a parenthesis in the name.
\<close>

theorem search_string_is_a_pattern:
  "res (userRouter (request_of ''GET'' ''/users?search=a.c'' [(''search'', ''a.c'')]) (env_at 0) []
         (store_of [user_doc 1 ''abc'' ''u1'' ''m@n.org'']))
     = Some (respond_json 200 (Data
         (UsersData 1 5 1 1 [user_doc 1 ''abc'' ''u1'' ''m@n.org''] False)))
   \<and> \<not> contains_ci ''a.c'' ''abc'' \<and> \<not> contains_ci ''a.c'' ''u1'' \<and> \<not> contains_ci ''a.c'' ''m@n.org''
   \<and> res (userRouter (request_of ''GET'' ''/users?search=('' [(''search'', ''('')]) (env_at 0) []
         (store_of [user_doc 1 ''Bob (admin)'' ''bob'' ''bob@example.com'']))
     = Some (respond_json 500 (ErrorBody ''Failed to fetch users''))
   \<and> contains_ci ''('' ''Bob (admin)''"
proof -
  let ?docs = "[user_doc 1 ''abc'' ''u1'' ''m@n.org'']"
  let ?db = "store_of ?docs"
  let ?ps = "[(''search'', ''a.c'')]"
  let ?bdb = "store_of [user_doc 1 ''Bob (admin)'' ''bob'' ''bob@example.com'']"
  let ?bps = "[(''search'', ''('')]"
  have lower: "toLowerCase ''a.c'' = ''a.c''" "toLowerCase ''('' = ''(''"
    by code_simp+
  have eng: "dot_engine ''a.c'' ''i'' = Some (rx_search True ''a.c'')"
    "dot_engine ''('' ''i'' = None"
    by (simp_all add: dot_engine_def plain_char_def)
  have ne: "''a.c'' \<noteq> []" "''('' \<noteq> []"
    by simp_all
  let ?m = "\<lambda>doc. prop_matches (rx_search True ''a.c'') ''name'' doc
                    \<or> prop_matches (rx_search True ''a.c'') ''username'' doc
                    \<or> prop_matches (rx_search True ''a.c'') ''email'' doc"
  have q: "query_pred (regex ?db) (users_query (search_of ?ps)) = Some ?m"
    using query_pred_users_query [of "''a.c''" dot_engine "rx_search True ''a.c''", OF ne(1) eng(1)]
    by (simp add: default_page lower store_of_simps)
  have bq: "query_pred (regex ?bdb) (users_query (search_of ?bps)) = None"
    using query_pred_users_query_rejected [of "''(''" dot_engine, OF ne(2) eng(2)]
    by (simp add: default_page lower store_of_simps)
  have sel: "filter ?m ?docs = ?docs"
    by code_simp
  have srt: "sort_on ''id'' 1 ?docs = ?docs"
    by code_simp
  have c: "ceil_div 1 5 = 1"
    by (simp add: ceil_div_int)
  have n: "\<not> contains_ci ''a.c'' ''abc''" "\<not> contains_ci ''a.c'' ''u1''"
    "\<not> contains_ci ''a.c'' ''m@n.org''" "contains_ci ''('' ''Bob (admin)''"
    by code_simp+
  have "userRouter (request_of ''GET'' ''/users?search=a.c'' ?ps) (env_at 0) [] ?db
      = list_users 1 5 (search_of ?ps) (sortBy_of ?ps) (order_of ?ps) (env_at 0) [] ?db"
    using collection_read_valid [OF search_request_read [of "''a.c''" ?ps] parsedUrl_request_of
      default_page(1) default_page(2) _ _, of "env_at 0" "[]" ?db]
    by (simp add: default_page id_valid)
  then have "res (userRouter (request_of ''GET'' ''/users?search=a.c'' ?ps) (env_at 0) [] ?db)
      = Some (respond_json 200 (Data
          (UsersData 1 5 (int (length (filter ?m (users ?db))))
             (ceil_div (int (length (filter ?m (users ?db)))) 5)
             (take (nat 5) (drop (nat (to_double (to_double (1 - 1) * 5)))
                (sorted_by ?db (sortBy_of ?ps) (order_of ?ps) (filter ?m (users ?db)))))
             False)))"
    by (simp add: list_users_miss [OF getCache_empty store_of_simps(1) q])
  then have "res (userRouter (request_of ''GET'' ''/users?search=a.c'' ?ps) (env_at 0) [] ?db)
      = Some (respond_json 200 (Data
          (UsersData 1 5 (int (length ?docs)) (ceil_div (int (length ?docs)) 5)
             (take (nat 5) (drop (nat (to_double (to_double (1 - 1) * 5)))
                (sort_on ''id'' 1 ?docs)))
             False)))"
    by (simp only: store_of_simps sel default_page)
  then have a: "res (userRouter (request_of ''GET'' ''/users?search=a.c'' ?ps) (env_at 0) [] ?db)
      = Some (respond_json 200 (Data (UsersData 1 5 1 1 ?docs False)))"
    by (simp add: srt c to_double_small)
  have "userRouter (request_of ''GET'' ''/users?search=('' ?bps) (env_at 0) [] ?bdb
      = list_users 1 5 (search_of ?bps) (sortBy_of ?bps) (order_of ?bps) (env_at 0) [] ?bdb"
    using collection_read_valid [OF search_request_read [of "''(''" ?bps] parsedUrl_request_of
      default_page(1) default_page(2) _ _, of "env_at 0" "[]" ?bdb]
    by (simp add: default_page id_valid)
  then have b: "res (userRouter (request_of ''GET'' ''/users?search=('' ?bps) (env_at 0) [] ?bdb)
      = Some (respond_json 500 (ErrorBody ''Failed to fetch users''))"
    using list_users_down [OF getCache_empty disjI2 [OF bq], of 1 5 "sortBy_of ?bps" "order_of ?bps" "env_at 0"]
    by simp
  from a b n show ?thesis
    by simp
qed

subsection \<open>Invalidation and the collection entries\<close>

text \<open>
  The key of a collection read starts with a brace, not with \<^verbatim>\<open>/users\<close>: the
  invalidation that follows a write removes the single-entity entries and
  leaves every collection entry where it is.
\<close>

lemma getCache_invalidate_collection:
  "getCache (invalidateCacheByPrefix cache ''/users'') (collection_key p l s b ord) t
     = getCache cache (collection_key p l s b ord) t"
  by (simp add: getCache_def map_of_invalidate collection_key_not_users)

lemma getCache_invalidate_user:
  "getCache (invalidateCacheByPrefix cache ''/users'') (user_key i) t = None"
  by (simp add: getCache_def map_of_invalidate user_key_users)

text \<open>
  C1.  A collection read, then a successful PUT, then the same collection read
  within the time to live: the PUT is answered 201 and the store holds both
  users, and the second read is answered from the cache with the page from
  before the write (one user, \<open>cached\<close> true).
\<close>

theorem stale_collection_after_put:
  "res (userRouter (put_of (Some (user_doc 2 ''Bob'' ''bob'' ''bob@example.com''))) (env_at 1000)
         (cache_out (userRouter (request_of ''GET'' ''/users'' []) (env_at 0) []
            (store_of [user_doc 1 ''Alice'' ''alice'' ''alice@example.com''])))
         (db_out (userRouter (request_of ''GET'' ''/users'' []) (env_at 0) []
            (store_of [user_doc 1 ''Alice'' ''alice'' ''alice@example.com'']))))
     = Some \<lparr>status = 201,
             headers = [(''Content-Type'', ''application/json''), (''Location'', ''/users/2'')],
             content = Document (user_doc 2 ''Bob'' ''bob'' ''bob@example.com'')\<rparr>
   \<and> users (snd (run [(request_of ''GET'' ''/users'' [], env_at 0),
                       (put_of (Some (user_doc 2 ''Bob'' ''bob'' ''bob@example.com'')), env_at 1000)]
                      [] (store_of [user_doc 1 ''Alice'' ''alice'' ''alice@example.com''])))
     = [user_doc 1 ''Alice'' ''alice'' ''alice@example.com'',
        user_doc 2 ''Bob'' ''bob'' ''bob@example.com'']
   \<and> res (userRouter (request_of ''GET'' ''/users'' []) (env_at 2000)
         (fst (run [(request_of ''GET'' ''/users'' [], env_at 0),
                    (put_of (Some (user_doc 2 ''Bob'' ''bob'' ''bob@example.com'')), env_at 1000)]
                   [] (store_of [user_doc 1 ''Alice'' ''alice'' ''alice@example.com''])))
         (snd (run [(request_of ''GET'' ''/users'' [], env_at 0),
                    (put_of (Some (user_doc 2 ''Bob'' ''bob'' ''bob@example.com'')), env_at 1000)]
                   [] (store_of [user_doc 1 ''Alice'' ''alice'' ''alice@example.com'']))))
     = Some (respond_json 200 (Data
         (UsersData 1 5 1 1 [user_doc 1 ''Alice'' ''alice'' ''alice@example.com''] True)))"
proof -
  let ?alice = "user_doc 1 ''Alice'' ''alice'' ''alice@example.com''"
  let ?bob = "user_doc 2 ''Bob'' ''bob'' ''bob@example.com''"
  let ?get = "request_of ''GET'' ''/users'' []"
  let ?put = "put_of (Some ?bob)"
  let ?db0 = "store_of [?alice]"
  let ?key = "collection_key 1 5 [] ''id'' 1"
  let ?page = "UsersData 1 5 1 1 [?alice] False"
  let ?o1 = "userRouter ?get (env_at 0) [] ?db0"
  let ?o2 = "userRouter ?put (env_at 1000) (cache_out ?o1) (db_out ?o1)"
  have db0: "available ?db0" "users ?db0 = [?alice]" "regex ?db0 = dot_engine"
    "sorted_by ?db0 = sort_on"
    by (simp_all add: store_of_def)
  have v: "sortBy_of [] \<in> set validSortFields"
    by (simp add: plain_request validSortFields_def)
  have srt: "sort_on ''id'' 1 [?alice] = [?alice]"
    by code_simp
  have c: "ceil_div 1 5 = 1"
    by (simp add: ceil_div_int)
  have route: "userRouter ?get e cache db = list_users 1 5 [] ''id'' 1 e cache db" for e cache db
    using handle_get_users_valid [OF parsedUrl_request_of plain_request(1) plain_request(2) _ _ v,
      of "''GET''" "''/users''" e cache db]
    by (simp add: userRouter_collection_read [OF users_read] plain_request)
  have q: "query_pred (regex ?db0) (users_query []) = Some (\<lambda>doc. True)"
    by (rule query_pred_users_query_empty)
  have o1: "cache_out ?o1 = setCache [] ?key ?page 0"
    "users (db_out ?o1) = [?alice]" "available (db_out ?o1)"
    unfolding route list_users_miss [OF getCache_empty db0(1) q]
    by (simp_all add: db0 srt c env_at_def logged_def to_double_small)
  have bob_id: "parsed_body ?put = Some ?bob" "numeric_id ?bob = Some 2"
    "\<not> list_ex (has_id (Some 2)) [?alice]"
    by (simp_all add: put_of_def numeric_id_def user_doc_def has_id_def)
  have two: "number_string 2 = ''2''"
    by code_simp
  have put: "userRouter ?put (env_at 1000) (cache_out ?o1) (db_out ?o1)
      = handle_put_user ?put (cache_out ?o1) (db_out ?o1)"
    by (rule userRouter_put [OF is_put_put_of])
  have o2: "res ?o2 = Some \<lparr>status = 201,
             headers = [(''Content-Type'', ''application/json''), (''Location'', ''/users/2'')],
             content = Document ?bob\<rparr>"
    "cache_out ?o2 = invalidateCacheByPrefix (cache_out ?o1) ''/users''"
    "users (db_out ?o2) = [?alice, ?bob]"
    unfolding put
    using handle_put_created [OF bob_id(1) bob_id(2) o1(3), of "cache_out ?o1"] bob_id(3)
    by (simp_all add: o1 two logged_def)
  have kept: "getCache (cache_out ?o2) ?key t = getCache (cache_out ?o1) ?key t" for t
    by (simp only: o2(2) getCache_invalidate_collection)
  have "getCache (cache_out ?o2) ?key (now (env_at 2000))
          = getCache (cache_out ?o1) ?key (now (env_at 2000))"
    by (rule kept)
  also have "\<dots> = getCache (setCache [] ?key ?page 0) ?key (now (env_at 2000))"
    by (simp only: o1(1))
  also have "\<dots> = Some ?page"
    by (simp add: getCache_def map_of_setCache CACHE_TTL_ms env_at_def)
  finally have hit: "getCache (cache_out ?o2) ?key (now (env_at 2000)) = Some ?page" .
  have "userRouter ?get (env_at 2000) (cache_out ?o2) (db_out ?o2)
          = list_users 1 5 [] ''id'' 1 (env_at 2000) (cache_out ?o2) (db_out ?o2)"
    by (rule route)
  also have "\<dots> = \<lparr>res = Some (respond_json 200 (Data (as_cached ?page))),
                      cache_out = cache_out ?o2, db_out = db_out ?o2\<rparr>"
    by (rule list_users_hit [OF hit])
  finally have o3: "res (userRouter ?get (env_at 2000) (cache_out ?o2) (db_out ?o2))
      = Some (respond_json 200 (Data (UsersData 1 5 1 1 [?alice] True)))"
    by simp
  from o2(1) o2(3) o3 show ?thesis
    by simp
qed

subsection \<open>Pagination\<close>

text \<open>
  C5 (as amended).  On a collection read with page and limit at least 1, the
  limit and \<open>(page - 1) * limit\<close> below \<open>2^53\<close>, and a valid \<open>sortBy\<close>: when the
  cache has nothing under the key and the store answers, the store is asked for
  the page with \<open>skip = (page - 1) * limit\<close> and then for the count under the same
  filter, and the response is 200 with \<open>totalUsers\<close> the number of documents the
  filter matches, \<open>totalPages\<close> the ceiling of \<open>totalUsers / limit\<close> and \<open>users\<close>
  the \<open>limit\<close> documents after the first \<open>skip\<close> of the sorted matches; that
  page object is then in the cache under the key, for the time to live.  When
  the cache has an entry under the key, the response is that entry with
  \<open>cached\<close> true and the store is not asked: its \<open>totalUsers\<close> is the count
  from when it was stored.  In a cache that holds what the router keeps, the
  entry is a page object of that page and limit whose \<open>totalPages\<close> is the
  ceiling of its \<open>totalUsers / limit\<close>.  The ceiling is the least number of
  pages of \<open>limit\<close> that hold \<open>t\<close> records.
\<close>

theorem get_users_pagination:
  assumes "is_collection_read req" and "parsedUrl req = Some ps"
    and "page_of ps = Some page" and "limit_of ps = Some limit"
    and "1 \<le> page" and "1 \<le> limit"
    and "limit < 2 ^ 53" and "(page - 1) * limit < 2 ^ 53"
    and "sortBy_of ps \<in> set validSortFields"
  shows "(getCache cache
            (collection_key page limit (search_of ps) (sortBy_of ps) (order_of ps)) (now e) = None
          \<and> available db
          \<and> query_pred (regex db) (users_query (search_of ps)) = Some matches
          \<and> int (length (users db)) < 2 ^ 53 \<longrightarrow>
            res (userRouter req e cache db)
              = Some (respond_json 200 (Data
                  (UsersData page limit (int (length (filter matches (users db))))
                     \<lceil>real (length (filter matches (users db))) / real_of_int limit\<rceil>
                     (take (nat limit) (drop (nat ((page - 1) * limit))
                        (sorted_by db (sortBy_of ps) (order_of ps) (filter matches (users db)))))
                     False)))
            \<and> calls (db_out (userRouter req e cache db))
                = calls db @
                  [Find (users_query (search_of ps)) (sortBy_of ps) (order_of ps)
                     ((page - 1) * limit) limit,
                   CountDocuments (users_query (search_of ps))]
            \<and> getCache (cache_out (userRouter req e cache db))
                 (collection_key page limit (search_of ps) (sortBy_of ps) (order_of ps)) t'
                = (if t' - later e \<le> CACHE_TTL then
                     Some (UsersData page limit (int (length (filter matches (users db))))
                       \<lceil>real (length (filter matches (users db))) / real_of_int limit\<rceil>
                       (take (nat limit) (drop (nat ((page - 1) * limit))
                          (sorted_by db (sortBy_of ps) (order_of ps) (filter matches (users db)))))
                       False)
                   else None))
         \<and> (getCache cache
               (collection_key page limit (search_of ps) (sortBy_of ps) (order_of ps)) (now e)
              = Some d \<longrightarrow>
              userRouter req e cache db
                = \<lparr>res = Some (respond_json 200 (Data (as_cached d))),
                   cache_out = cache, db_out = db\<rparr>)
         \<and> (getCache cache
               (collection_key page limit (search_of ps) (sortBy_of ps) (order_of ps)) (now e)
              = Some d
             \<and> cache_ok cache \<longrightarrow>
              (\<exists>total us.
                 d = UsersData page limit total \<lceil>real_of_int total / real_of_int limit\<rceil> us False
                 \<and> res (userRouter req e cache db)
                   = Some (respond_json 200 (Data
                       (UsersData page limit total \<lceil>real_of_int total / real_of_int limit\<rceil>
                          us True)))))
         \<and> (\<lceil>real_of_int t / real_of_int limit\<rceil> - 1) * limit < t
         \<and> t \<le> \<lceil>real_of_int t / real_of_int limit\<rceil> * limit"
proof -
  have r: "userRouter req e cache db
             = list_users page limit (search_of ps) (sortBy_of ps) (order_of ps) e cache db"
    by (rule collection_read_valid [OF assms(1-6) assms(9)])
  have sk: "to_double (to_double (page - 1) * limit) = (page - 1) * limit"
    by (rule skip_exact [OF assms(5) assms(6) assms(8)])
  show ?thesis
  proof (intro conjI impI)
    assume a: "getCache cache
            (collection_key page limit (search_of ps) (sortBy_of ps) (order_of ps)) (now e) = None
          \<and> available db
          \<and> query_pred (regex db) (users_query (search_of ps)) = Some matches
          \<and> int (length (users db)) < 2 ^ 53"
    then have m: "list_users page limit (search_of ps) (sortBy_of ps) (order_of ps) e cache db
      = \<lparr>res = Some (respond_json 200 (Data
          (UsersData page limit (int (length (filter matches (users db))))
             (ceil_div (int (length (filter matches (users db)))) limit)
             (take (nat limit) (drop (nat ((page - 1) * limit))
                (sorted_by db (sortBy_of ps) (order_of ps) (filter matches (users db)))))
             False))),
        cache_out = setCache cache
          (collection_key page limit (search_of ps) (sortBy_of ps) (order_of ps))
          (UsersData page limit (int (length (filter matches (users db))))
             (ceil_div (int (length (filter matches (users db)))) limit)
             (take (nat limit) (drop (nat ((page - 1) * limit))
                (sorted_by db (sortBy_of ps) (order_of ps) (filter matches (users db)))))
             False) (later e),
        db_out = logged (logged db (Find (users_query (search_of ps)) (sortBy_of ps) (order_of ps)
                    ((page - 1) * limit) limit))
                   (CountDocuments (users_query (search_of ps)))\<rparr>"
      using list_users_miss [of cache page limit "search_of ps" "sortBy_of ps" "order_of ps" e db matches]
      by (simp add: sk)
    show "res (userRouter req e cache db)
              = Some (respond_json 200 (Data
                  (UsersData page limit (int (length (filter matches (users db))))
                     \<lceil>real (length (filter matches (users db))) / real_of_int limit\<rceil>
                     (take (nat limit) (drop (nat ((page - 1) * limit))
                        (sorted_by db (sortBy_of ps) (order_of ps) (filter matches (users db)))))
                     False)))"
      by (simp add: r m ceil_div_def)
    show "calls (db_out (userRouter req e cache db))
                = calls db @
                  [Find (users_query (search_of ps)) (sortBy_of ps) (order_of ps)
                     ((page - 1) * limit) limit,
                   CountDocuments (users_query (search_of ps))]"
      by (simp add: r m logged_def)
    show "getCache (cache_out (userRouter req e cache db))
                 (collection_key page limit (search_of ps) (sortBy_of ps) (order_of ps)) t'
                = (if t' - later e \<le> CACHE_TTL then
                     Some (UsersData page limit (int (length (filter matches (users db))))
                       \<lceil>real (length (filter matches (users db))) / real_of_int limit\<rceil>
                       (take (nat limit) (drop (nat ((page - 1) * limit))
                          (sorted_by db (sortBy_of ps) (order_of ps) (filter matches (users db)))))
                       False)
                   else None)"
      by (simp add: r m getCache_def map_of_setCache ceil_div_def)
  next
    assume "getCache cache
               (collection_key page limit (search_of ps) (sortBy_of ps) (order_of ps)) (now e)
              = Some d"
    then show "userRouter req e cache db
                = \<lparr>res = Some (respond_json 200 (Data (as_cached d))),
                   cache_out = cache, db_out = db\<rparr>"
      by (simp add: r list_users_hit)
  next
    assume a: "getCache cache
               (collection_key page limit (search_of ps) (sortBy_of ps) (order_of ps)) (now e)
              = Some d
             \<and> cache_ok cache"
    then obtain total us where d: "d = UsersData page limit total (ceil_div total limit) us False"
      using cached_page by blast
    with a have "res (userRouter req e cache db)
                   = Some (respond_json 200 (Data
                       (UsersData page limit total (ceil_div total limit) us True)))"
      by (simp add: r list_users_hit)
    with d have "d = UsersData page limit total \<lceil>real_of_int total / real_of_int limit\<rceil> us False
                 \<and> res (userRouter req e cache db)
                   = Some (respond_json 200 (Data
                       (UsersData page limit total \<lceil>real_of_int total / real_of_int limit\<rceil>
                          us True)))"
      by (simp add: ceil_div_def)
    then show "\<exists>total us.
                 d = UsersData page limit total \<lceil>real_of_int total / real_of_int limit\<rceil> us False
                 \<and> res (userRouter req e cache db)
                   = Some (respond_json 200 (Data
                       (UsersData page limit total \<lceil>real_of_int total / real_of_int limit\<rceil>
                          us True)))"
      by blast
  next
    from ceil_div_bounds [OF assms(6), of t]
    show "(\<lceil>real_of_int t / real_of_int limit\<rceil> - 1) * limit < t"
      and "t \<le> \<lceil>real_of_int t / real_of_int limit\<rceil> * limit"
      by (simp_all add: ceil_div_def)
  qed
qed

theorem get_users_pagination_witness:
  "res (userRouter (request_of ''GET'' ''/users?page=2&limit=2'' [(''page'', ''2''), (''limit'', ''2'')])
         (env_at 0) []
         (store_of [user_doc 1 ''Alice'' ''alice'' ''alice@example.com'',
                    user_doc 2 ''Bob'' ''bob'' ''bob@example.com'',
                    user_doc 3 ''Carol'' ''carol'' ''carol@example.com'']))
     = Some (respond_json 200 (Data
         (UsersData 2 2 3 2 [user_doc 3 ''Carol'' ''carol'' ''carol@example.com''] False)))
   \<and> calls (db_out (userRouter
         (request_of ''GET'' ''/users?page=2&limit=2'' [(''page'', ''2''), (''limit'', ''2'')])
         (env_at 0) []
         (store_of [user_doc 1 ''Alice'' ''alice'' ''alice@example.com'',
                    user_doc 2 ''Bob'' ''bob'' ''bob@example.com'',
                    user_doc 3 ''Carol'' ''carol'' ''carol@example.com''])))
     = [Find MatchAll ''id'' 1 2 2, CountDocuments MatchAll]
   \<and> res (userRouter
         (request_of ''GET'' ''/users?page=2&limit=2'' [(''page'', ''2''), (''limit'', ''2'')])
         (env_at 1000)
         (cache_out (userRouter
            (request_of ''GET'' ''/users?page=2&limit=2'' [(''page'', ''2''), (''limit'', ''2'')])
            (env_at 0) []
            (store_of [user_doc 1 ''Alice'' ''alice'' ''alice@example.com'',
                       user_doc 2 ''Bob'' ''bob'' ''bob@example.com'',
                       user_doc 3 ''Carol'' ''carol'' ''carol@example.com''])))
         (db_out (userRouter
            (request_of ''GET'' ''/users?page=2&limit=2'' [(''page'', ''2''), (''limit'', ''2'')])
            (env_at 0) []
            (store_of [user_doc 1 ''Alice'' ''alice'' ''alice@example.com'',
                       user_doc 2 ''Bob'' ''bob'' ''bob@example.com'',
                       user_doc 3 ''Carol'' ''carol'' ''carol@example.com'']))))
     = Some (respond_json 200 (Data
         (UsersData 2 2 3 2 [user_doc 3 ''Carol'' ''carol'' ''carol@example.com''] True)))
   \<and> (\<lceil>(3::real) / 2\<rceil> - 1) * 2 < (3::int) \<and> (3::int) \<le> \<lceil>(3::real) / 2\<rceil> * 2"
proof -
  let ?ps = "[(''page'', ''2''), (''limit'', ''2'')]"
  let ?req = "request_of ''GET'' ''/users?page=2&limit=2'' ?ps"
  let ?carol = "user_doc 3 ''Carol'' ''carol'' ''carol@example.com''"
  let ?docs = "[user_doc 1 ''Alice'' ''alice'' ''alice@example.com'',
                user_doc 2 ''Bob'' ''bob'' ''bob@example.com'', ?carol]"
  let ?db = "store_of ?docs"
  let ?key = "collection_key 2 2 [] ''id'' 1"
  let ?page = "UsersData 2 2 3 2 [?carol] False"
  let ?o1 = "userRouter ?req (env_at 0) [] ?db"
  have h1: "is_collection_read ?req"
    by (rule page_request_read [of "''2&limit=2''" ?ps, simplified])
  have h2: "parsedUrl ?req = Some ?ps"
    by (rule parsedUrl_request_of)
  have h3: "page_of ?ps = Some 2" and h4: "limit_of ?ps = Some 2"
    by code_simp+
  have n: "search_of ?ps = []" "sortBy_of ?ps = ''id''" "order_of ?ps = 1"
    by (simp_all add: search_of_def sortBy_of_def order_of_def param_def or_default_def)
  have h5: "sortBy_of ?ps \<in> set validSortFields"
    by (simp add: n id_valid)
  have b: "(1::int) \<le> 2" "(2::int) < 2 ^ 53" "((2::int) - 1) * 2 < 2 ^ 53"
    by simp_all
  note pag = get_users_pagination [OF h1 h2 h3 h4 b(1) b(1) b(2) b(3) h5]
  have srt: "sort_on ''id'' 1 ?docs = ?docs"
    by code_simp
  have q: "users_query [] = MatchAll"
    by (simp add: users_query_def)
  have a: "getCache [] (collection_key 2 2 (search_of ?ps) (sortBy_of ?ps) (order_of ?ps))
              (now (env_at 0)) = None
           \<and> available ?db
           \<and> query_pred (regex ?db) (users_query (search_of ?ps)) = Some (\<lambda>doc. True)
           \<and> int (length (users ?db)) < 2 ^ 53"
    by (simp add: getCache_empty store_of_simps n query_pred_users_query_empty)
  from mp [OF conjunct1 [OF pag [where cache = "[]" and e = "env_at 0" and db = ?db
      and matches = "\<lambda>doc. True" and t' = 1000]] a]
  have first: "res ?o1 = Some (respond_json 200 (Data ?page))"
    "calls (db_out ?o1) = [Find MatchAll ''id'' 1 2 2, CountDocuments MatchAll]"
    and stored: "getCache (cache_out ?o1) ?key 1000 = Some ?page"
    by (simp_all add: n srt q store_of_simps env_at_def CACHE_TTL_ms)
  have ok: "cache_ok (cache_out ?o1)"
    by (rule cache_ok_userRouter [OF cache_ok_empty])
  from stored ok have hit: "getCache (cache_out ?o1)
       (collection_key 2 2 (search_of ?ps) (sortBy_of ?ps) (order_of ?ps)) (now (env_at 1000))
      = Some ?page \<and> cache_ok (cache_out ?o1)"
    by (simp add: n env_at_def)
  from mp [OF conjunct1 [OF conjunct2 [OF conjunct2 [OF pag [where cache = "cache_out ?o1"
      and e = "env_at 1000" and db = "db_out ?o1" and d = ?page]]]] hit]
  have second: "res (userRouter ?req (env_at 1000) (cache_out ?o1) (db_out ?o1))
      = Some (respond_json 200 (Data (UsersData 2 2 3 2 [?carol] True)))"
    by auto
  from conjunct2 [OF conjunct2 [OF conjunct2 [OF pag [where t = 3]]]]
  have third: "(\<lceil>(3::real) / 2\<rceil> - 1) * 2 < (3::int) \<and> (3::int) \<le> \<lceil>(3::real) / 2\<rceil> * 2"
    by simp
  from first second third show ?thesis
    by simp
qed

text \<open>
  Two things the bounds and the split into miss and hit keep out.  Page
  9007199254740990 with the default limit: \<open>(page - 1) * limit\<close> is
  45035996273704945, no double, and the store is asked to skip
  45035996273704944.  And a hit
  after a delete: the read \<^verbatim>\<open>/users?limit=1\<close> on two users, the delete of user
  2, and the same read within the time to live are answered 200, 200 and, from
  the cache, with \<open>totalUsers\<close> 2 and \<open>totalPages\<close> 2, while the filter matches
  the one user the store still holds.
\<close>

theorem pagination_counterexample:
  "page_of [(''page'', ''9007199254740990'')] = Some 9007199254740990
   \<and> limit_of [(''page'', ''9007199254740990'')] = Some 5
   \<and> calls (db_out (userRouter
         (request_of ''GET'' ''/users?page=9007199254740990'' [(''page'', ''9007199254740990'')])
         (env_at 0) [] (store_of [])))
     = [Find MatchAll ''id'' 1 45035996273704944 5, CountDocuments MatchAll]
   \<and> (9007199254740990 - 1) * 5 = (45035996273704945 :: int)
   \<and> res (userRouter (request_of ''DELETE'' ''/users/2'' []) (env_at 1000)
         (cache_out (userRouter (request_of ''GET'' ''/users?limit=1'' [(''limit'', ''1'')]) (env_at 0) []
            (store_of [user_doc 1 ''Alice'' ''alice'' ''alice@example.com'',
                       user_doc 2 ''Bob'' ''bob'' ''bob@example.com''])))
         (db_out (userRouter (request_of ''GET'' ''/users?limit=1'' [(''limit'', ''1'')]) (env_at 0) []
            (store_of [user_doc 1 ''Alice'' ''alice'' ''alice@example.com'',
                       user_doc 2 ''Bob'' ''bob'' ''bob@example.com'']))))
     = Some (respond_json 200 (MessageBody ''User deleted successfully''))
   \<and> users (snd (run [(request_of ''GET'' ''/users?limit=1'' [(''limit'', ''1'')], env_at 0),
                       (request_of ''DELETE'' ''/users/2'' [], env_at 1000)]
                      [] (store_of [user_doc 1 ''Alice'' ''alice'' ''alice@example.com'',
                                    user_doc 2 ''Bob'' ''bob'' ''bob@example.com''])))
     = [user_doc 1 ''Alice'' ''alice'' ''alice@example.com'']
   \<and> res (userRouter (request_of ''GET'' ''/users?limit=1'' [(''limit'', ''1'')]) (env_at 2000)
         (fst (run [(request_of ''GET'' ''/users?limit=1'' [(''limit'', ''1'')], env_at 0),
                    (request_of ''DELETE'' ''/users/2'' [], env_at 1000)]
                   [] (store_of [user_doc 1 ''Alice'' ''alice'' ''alice@example.com'',
                                 user_doc 2 ''Bob'' ''bob'' ''bob@example.com''])))
         (snd (run [(request_of ''GET'' ''/users?limit=1'' [(''limit'', ''1'')], env_at 0),
                    (request_of ''DELETE'' ''/users/2'' [], env_at 1000)]
                   [] (store_of [user_doc 1 ''Alice'' ''alice'' ''alice@example.com'',
                                 user_doc 2 ''Bob'' ''bob'' ''bob@example.com'']))))
     = Some (respond_json 200 (Data
         (UsersData 1 1 2 2 [user_doc 1 ''Alice'' ''alice'' ''alice@example.com''] True)))"
proof -
  let ?big = "[(''page'', ''9007199254740990'')]"
  let ?far = "request_of ''GET'' ''/users?page=9007199254740990'' ?big"
  have f1: "is_collection_read ?far"
    by (rule page_request_read [of "''9007199254740990''" ?big, simplified])
  have f2: "page_of ?big = Some 9007199254740990" "limit_of ?big = Some 5"
    by (simp_all add: page_of_def limit_of_def param_def or_default_def parseInt_def is_space_def
          radix_digit_def digit_of_def digits_value_def to_double_small)
  have f3: "search_of ?big = []" "sortBy_of ?big = ''id''" "order_of ?big = 1"
    by (simp_all add: search_of_def sortBy_of_def order_of_def param_def or_default_def)
  have "to_double (int 45035996273704945) = 45035996273704944"
    by (subst to_double_rounds [where e = 3]) simp_all
  then have f4: "to_double (to_double (9007199254740990 - 1) * 5) = 45035996273704944"
    by (simp add: to_double_small)
  have "userRouter ?far (env_at 0) [] (store_of [])
      = list_users 9007199254740990 5 [] ''id'' 1 (env_at 0) [] (store_of [])"
    using collection_read_valid [OF f1 parsedUrl_request_of f2, of "env_at 0" "[]" "store_of []"]
    by (simp add: f3 id_valid)
  also have "db_out \<dots>
      = logged (logged (store_of []) (Find (users_query []) ''id'' 1
                  (to_double (to_double (9007199254740990 - 1) * 5)) 5))
          (CountDocuments (users_query []))"
    by (subst list_users_miss [OF getCache_empty store_of_simps(1) query_pred_users_query_empty])
       simp
  finally have far: "calls (db_out (userRouter ?far (env_at 0) [] (store_of [])))
      = [Find MatchAll ''id'' 1 45035996273704944 5, CountDocuments MatchAll]"
    by (simp only: f4) (simp add: logged_def store_of_simps users_query_def)
  let ?alice = "user_doc 1 ''Alice'' ''alice'' ''alice@example.com''"
  let ?bob = "user_doc 2 ''Bob'' ''bob'' ''bob@example.com''"
  let ?ps = "[(''limit'', ''1'')]"
  let ?get = "request_of ''GET'' ''/users?limit=1'' ?ps"
  let ?del = "request_of ''DELETE'' ''/users/2'' []"
  let ?db0 = "store_of [?alice, ?bob]"
  let ?key = "collection_key 1 1 [] ''id'' 1"
  let ?page = "UsersData 1 1 2 2 [?alice] False"
  let ?o1 = "userRouter ?get (env_at 0) [] ?db0"
  let ?o2 = "userRouter ?del (env_at 1000) (cache_out ?o1) (db_out ?o1)"
  have g1: "is_collection_read ?get"
    by (simp add: is_collection_read_def request_of_def startsWith_def is_user_path_def)
  have g2: "page_of ?ps = Some 1" "limit_of ?ps = Some 1"
    by code_simp+
  have g3: "search_of ?ps = []" "sortBy_of ?ps = ''id''" "order_of ?ps = 1"
    by (simp_all add: search_of_def sortBy_of_def order_of_def param_def or_default_def)
  have route: "userRouter ?get e cache db = list_users 1 1 [] ''id'' 1 e cache db" for e cache db
    using collection_read_valid [OF g1 parsedUrl_request_of g2, of e cache db]
    by (simp add: g3 id_valid)
  have srt: "sort_on ''id'' 1 [?alice, ?bob] = [?alice, ?bob]"
    by code_simp
  have o1: "cache_out ?o1 = setCache [] ?key ?page 0"
    "users (db_out ?o1) = [?alice, ?bob]" "available (db_out ?o1)"
    unfolding route
      list_users_miss [OF getCache_empty store_of_simps(1) query_pred_users_query_empty]
    by (simp_all add: store_of_simps srt ceil_div_int env_at_def logged_def to_double_small)
  have d1: "is_delete ?del"
    by (simp add: is_delete_def request_of_def startsWith_def)
  have d2: "path_id (url ?del) = Some 2"
    unfolding request_of_def by code_simp
  have d3: "list_ex (has_id (Some 2)) (users (db_out ?o1))"
    "remove_first (has_id (Some 2)) (users (db_out ?o1)) = [?alice]"
    unfolding o1(2) by (simp_all add: has_id_def user_doc_def)
  have "?o2 = handle_delete ?del (cache_out ?o1) (db_out ?o1)"
    by (rule userRouter_delete [OF d1])
  also note handle_delete_found [OF d2 o1(3) d3(1), of "cache_out ?o1"]
  finally have o2: "res ?o2 = Some (respond_json 200 (MessageBody ''User deleted successfully''))"
    "cache_out ?o2 = invalidateCacheByPrefix (cache_out ?o1) ''/users''"
    "users (db_out ?o2) = [?alice]"
    by (simp_all add: d3(2))
  have "getCache (cache_out ?o2) ?key (now (env_at 2000))
          = getCache (cache_out ?o1) ?key (now (env_at 2000))"
    by (simp only: o2(2) getCache_invalidate_collection)
  also have "\<dots> = getCache (setCache [] ?key ?page 0) ?key (now (env_at 2000))"
    by (simp only: o1(1))
  also have "\<dots> = Some ?page"
    by (simp add: getCache_def map_of_setCache CACHE_TTL_ms env_at_def)
  finally have hit: "getCache (cache_out ?o2) ?key (now (env_at 2000)) = Some ?page" .
  have "userRouter ?get (env_at 2000) (cache_out ?o2) (db_out ?o2)
          = list_users 1 1 [] ''id'' 1 (env_at 2000) (cache_out ?o2) (db_out ?o2)"
    by (rule route)
  also have "\<dots> = \<lparr>res = Some (respond_json 200 (Data (as_cached ?page))),
                      cache_out = cache_out ?o2, db_out = db_out ?o2\<rparr>"
    by (rule list_users_hit [OF hit])
  finally have o3: "res (userRouter ?get (env_at 2000) (cache_out ?o2) (db_out ?o2))
      = Some (respond_json 200 (Data (UsersData 1 1 2 2 [?alice] True)))"
    by simp
  from f2 far o2(1) o2(3) o3 show ?thesis
    by simp
qed

end
